theory Spec2Isabelle
  imports Complex_Main "HOL-Library.Sublist" "HOL-Library.Multiset"
begin

section \<open>Data model\<close>

text \<open>
  The embedding follows \<^verbatim>\<open>data_loader.py\<close>. Python floats are modelled as reals
  (no NaN, no infinities); the rounding of float64 is written out where it decides what
  the code does, in the computation of \<^verbatim>\<open>max_wanted\<close>. Every exception the code can
  raise is a value of \<open>error\<close>; a function that can raise returns \<open>error + 'a\<close> with
  \<open>Inl\<close> the exception.
\<close>

datatype error = ValueError | IndexError | TypeError | AssertionError | CvError
  | FileNotFoundError | KeyError | StopIteration

type_synonym measurement = "real \<times> real \<times> real"

text \<open>
  The measurements travel as a numpy array. Its number of dimensions matters to the code:
  \<^verbatim>\<open>np.array([])\<close> is one-dimensional with shape (0,), while \<^verbatim>\<open>np.array\<close> of a non-empty
  list of triples, and everything \<^verbatim>\<open>np.delete\<close> or \<^verbatim>\<open>np.append\<close> makes of such an array,
  is two-dimensional with shape (n, 3).
\<close>

datatype marray = Shape0 | Rows2D "measurement list"

fun np_array :: "measurement list \<Rightarrow> marray" where
  "np_array [] = Shape0"
| "np_array (m # ms) = Rows2D (m # ms)"

fun len_m :: "marray \<Rightarrow> nat" where
  "len_m Shape0 = 0"
| "len_m (Rows2D ms) = length ms"

fun rows_of :: "marray \<Rightarrow> measurement list" where
  "rows_of Shape0 = []"
| "rows_of (Rows2D ms) = ms"

text \<open>\<^verbatim>\<open>measurements[:,0]\<close>: two indices on a one-dimensional array raise IndexError.\<close>

fun column0 :: "marray \<Rightarrow> error + real list" where
  "column0 Shape0 = Inl IndexError"
| "column0 (Rows2D ms) = Inr (map fst ms)"

record DataLoader =
  train_file :: string
  log_file :: string
  img_folder :: string
  path_separator :: string
  angle_correction :: "real option"
  normalize_factor :: "real option"
  flip_min_angle :: "real option"

text \<open>The defaults of \<^verbatim>\<open>__init__\<close>; the default separator is one backslash.\<close>

definition new_DataLoader :: "string \<Rightarrow> string \<Rightarrow> string \<Rightarrow> DataLoader" where
  "new_DataLoader tf lf dir =
     \<lparr>train_file = tf, log_file = lf, img_folder = dir, path_separator = [CHR 0x5C],
      angle_correction = Some (1 / 10), normalize_factor = Some (5 / 2),
      flip_min_angle = Some 0\<rparr>"

section \<open>Parsing one line of the log\<close>

text \<open>
  \<^verbatim>\<open>str.split(sep)\<close> scans from the left and cuts at each occurrence of the separator that
  does not overlap the one before; \<open>cur\<close> holds the current component, reversed.
  An empty separator raises ValueError.
\<close>

fun split_on :: "string \<Rightarrow> string \<Rightarrow> string \<Rightarrow> string list" where
  "split_on sep cur [] = [rev cur]"
| "split_on sep cur (c # cs) =
     (if prefix sep (c # cs) then rev cur # split_on sep [] (drop (length sep - 1) cs)
      else split_on sep (c # cur) cs)"

definition str_split :: "string \<Rightarrow> string \<Rightarrow> error + string list" where
  "str_split s sep = (if sep = [] then Inl ValueError else Inr (split_on sep [] s))"

text \<open>\<^verbatim>\<open>img.split(self.path_separator)[-1]\<close>; the list \<open>split\<close> returns is never empty.\<close>

definition last_component :: "string \<Rightarrow> string \<Rightarrow> error + string" where
  "last_component sep img =
     (case str_split img sep of Inl e \<Rightarrow> Inl e | Inr parts \<Rightarrow> Inr (last parts))"

text \<open>A list comprehension whose element expression can raise: the first exception wins.\<close>

fun collect :: "(error + 'a) list \<Rightarrow> error + 'a list" where
  "collect [] = Inr []"
| "collect (x # xs) =
     (case x of
        Inl e \<Rightarrow> Inl e
      | Inr v \<Rightarrow> (case collect xs of Inl e \<Rightarrow> Inl e | Inr vs \<Rightarrow> Inr (v # vs)))"

text \<open>
  \<^verbatim>\<open>float(value)\<close> is a builtin of Python; the model takes it as the parameter
  \<open>to_float\<close>, \<open>None\<close> where the builtin raises ValueError.
\<close>

definition py_float :: "(string \<Rightarrow> real option) \<Rightarrow> string \<Rightarrow> error + real" where
  "py_float to_float s = (case to_float s of None \<Rightarrow> Inl ValueError | Some x \<Rightarrow> Inr x)"

text \<open>\<^verbatim>\<open>np.clip(a, a_min, a_max)\<close> is \<^verbatim>\<open>minimum(a_max, maximum(a, a_min))\<close>, element by element.\<close>

definition np_clip :: "real \<Rightarrow> real \<Rightarrow> real \<Rightarrow> real" where
  "np_clip a_min a_max x = min a_max (max x a_min)"

definition clip_row :: "measurement \<Rightarrow> measurement" where
  "clip_row m =
     (case m of (a, t, b) \<Rightarrow> (np_clip (- 1) 1 a, np_clip (- 1) 1 t, np_clip (- 1) 1 b))"

text \<open>
  \<^verbatim>\<open>_parse_line\<close>. Both unpackings raise ValueError when the slice has fewer than three
  elements; fields after the sixth are ignored. With a correction the three rows go
  through \<^verbatim>\<open>np.clip\<close> together, the centre row included.
\<close>

definition parse_line ::
  "(string \<Rightarrow> real option) \<Rightarrow> DataLoader \<Rightarrow> string list
     \<Rightarrow> error + string list \<times> measurement list" where
  "parse_line to_float self line =
     (case collect (map (last_component (path_separator self)) (take 3 line)) of
        Inl e \<Rightarrow> Inl e
      | Inr [center_img, left_img, right_img] \<Rightarrow>
          (case collect (map (py_float to_float) (take 3 (drop 3 line))) of
             Inl e \<Rightarrow> Inl e
           | Inr [steering_angle, throttle, break_force] \<Rightarrow>
               (case angle_correction self of
                  None \<Rightarrow> Inr ([center_img], [(steering_angle, throttle, break_force)])
                | Some corr \<Rightarrow>
                    Inr ([center_img, left_img, right_img],
                         map clip_row
                           [(steering_angle, throttle, break_force),
                            (steering_angle + corr, throttle, break_force),
                            (steering_angle - corr, throttle, break_force)]))
           | Inr _ \<Rightarrow> Inl ValueError)
      | Inr _ \<Rightarrow> Inl ValueError)"

subsection \<open>Plain decimal literals\<close>

text \<open>
  The part of \<^verbatim>\<open>float\<close> the simulator's logs use: an optional sign, digits, and an
  optional point followed by digits. It is one possible value of the parameter
  \<open>to_float\<close>, used to run the parser on concrete lines.
\<close>

definition digit_val :: "char \<Rightarrow> nat option" where
  "digit_val = map_of
     [(CHR ''0'', 0), (CHR ''1'', 1), (CHR ''2'', 2), (CHR ''3'', 3), (CHR ''4'', 4),
      (CHR ''5'', 5), (CHR ''6'', 6), (CHR ''7'', 7), (CHR ''8'', 8), (CHR ''9'', 9)]"

fun digits_val :: "nat \<Rightarrow> string \<Rightarrow> nat option" where
  "digits_val acc [] = Some acc"
| "digits_val acc (c # cs) =
     (case digit_val c of None \<Rightarrow> None | Some d \<Rightarrow> digits_val (10 * acc + d) cs)"

definition unsigned_decimal :: "string \<Rightarrow> real option" where
  "unsigned_decimal s =
     (let ip = takeWhile (\<lambda>c. c \<noteq> CHR ''.'') s;
          fp = drop 1 (dropWhile (\<lambda>c. c \<noteq> CHR ''.'') s)
      in if ip = [] \<and> fp = [] then None
         else (case (digits_val 0 ip, digits_val 0 fp) of
                 (Some i, Some f) \<Rightarrow> Some (real i + real f / 10 ^ length fp)
               | _ \<Rightarrow> None))"

fun float_decimal :: "string \<Rightarrow> real option" where
  "float_decimal [] = None"
| "float_decimal (c # cs) =
     (if c = CHR ''-'' then map_option uminus (unsigned_decimal cs)
      else if c = CHR ''+'' then unsigned_decimal cs
      else unsigned_decimal (c # cs))"

section \<open>Reading the log\<close>

text \<open>
  \<^verbatim>\<open>_load_data_log\<close>. The parameter \<open>csv_rows\<close> is the list of rows \<^verbatim>\<open>csv.reader\<close> yields for
  the log file. The two Python lists grow line by line; an exception of \<^verbatim>\<open>_parse_line\<close>
  ends the loop. At the end both lists become numpy arrays.
\<close>

fun load_lines ::
  "(string \<Rightarrow> real option) \<Rightarrow> DataLoader \<Rightarrow> string list list \<Rightarrow> string list
     \<Rightarrow> measurement list \<Rightarrow> error + string list \<times> measurement list" where
  "load_lines to_float self [] images measurements = Inr (images, measurements)"
| "load_lines to_float self (line # rest) images measurements =
     (case parse_line to_float self line of
        Inl e \<Rightarrow> Inl e
      | Inr (line_images, line_measurements) \<Rightarrow>
          load_lines to_float self rest (images @ line_images)
            (measurements @ line_measurements))"

definition load_data_log ::
  "(string \<Rightarrow> real option) \<Rightarrow> DataLoader \<Rightarrow> string list list
     \<Rightarrow> error + string list \<times> marray" where
  "load_data_log to_float self csv_rows =
     (case load_lines to_float self csv_rows [] [] of
        Inl e \<Rightarrow> Inl e
      | Inr (images, measurements) \<Rightarrow> Inr (images, np_array measurements))"

section \<open>Normalisation\<close>

text \<open>
  The global generator of \<^verbatim>\<open>np.random\<close> is an explicit stream of raw draws, threaded
  through every call that consumes randomness.
\<close>

type_synonym rng = "nat \<Rightarrow> nat"

definition draw :: "rng \<Rightarrow> nat \<times> rng" where
  "draw g = (g 0, \<lambda>i. g (Suc i))"

text \<open>
  A sample of \<open>k\<close> elements without replacement: each step draws a position of what is
  left of the population and takes the element out.
\<close>

fun pick :: "rng \<Rightarrow> 'a list \<Rightarrow> nat \<Rightarrow> 'a list \<times> rng" where
  "pick g xs 0 = ([], g)"
| "pick g [] (Suc k) = ([], g)"
| "pick g (x # xs) (Suc k) =
     (case draw g of
        (r, g') \<Rightarrow>
          (let j = r mod length (x # xs) in
           case pick g' (take j (x # xs) @ drop (Suc j) (x # xs)) k of
             (rest, g'') \<Rightarrow> ((x # xs) ! j # rest, g'')))"

text \<open>\<^verbatim>\<open>np.random.choice(a, size, replace = False)\<close> raises ValueError for a sample larger
  than the population.\<close>

definition np_random_choice :: "rng \<Rightarrow> 'a list \<Rightarrow> nat \<Rightarrow> error + 'a list \<times> rng" where
  "np_random_choice g a k = (if length a < k then Inl ValueError else Inr (pick g a k))"

text \<open>\<^verbatim>\<open>np.where(cond)[0]\<close>: the positions where the condition holds, ascending.\<close>

definition np_where :: "('a \<Rightarrow> bool) \<Rightarrow> 'a list \<Rightarrow> nat list" where
  "np_where P xs = filter (\<lambda>j. P (xs ! j)) [0..<length xs]"

text \<open>
  The membership test of bin \<open>i\<close>: closed on the left, open on the right, and closed on
  the right too for the last bin, the one with \<^verbatim>\<open>i == len(bins) - 2\<close>.
\<close>

definition in_bin :: "real list \<Rightarrow> nat \<Rightarrow> real \<Rightarrow> bool" where
  "in_bin bins i a =
     (if i = length bins - 2 then bins ! i \<le> a \<and> a \<le> bins ! Suc i
      else bins ! i \<le> a \<and> a < bins ! Suc i)"

definition bin_angles :: "real list \<Rightarrow> real list \<Rightarrow> nat \<Rightarrow> nat list" where
  "bin_angles bins angles i = np_where (in_bin bins i) angles"

text \<open>
  The arithmetic that decides \<^verbatim>\<open>max_wanted\<close> is float64 arithmetic: the result of an
  operation is the exact result rounded to the nearest number with a significand of 53
  bits, a tie going to the even significand. \<open>float_exponent x\<close> is the \<open>e\<close> with
  \<open>2^e \<le> x < 2^(e+1)\<close>, searched over the exponents of the normal range, from -1022 to
  1023; overflow and subnormal numbers are outside the model.
\<close>

definition round_even :: "real \<Rightarrow> int" where
  "round_even y =
     (let f = \<lfloor>y\<rfloor>; r = y - of_int f
      in if r < 1 / 2 then f else if 1 / 2 < r then f + 1
         else if even f then f else f + 1)"

fun exponent_up :: "nat \<Rightarrow> real \<Rightarrow> int" where
  "exponent_up fuel x =
     (if fuel = 0 \<or> x < 2 then 0 else exponent_up (fuel - 1) (x / 2) + 1)"

fun exponent_down :: "nat \<Rightarrow> real \<Rightarrow> int" where
  "exponent_down fuel x =
     (if fuel = 0 \<or> 1 \<le> x then 0 else exponent_down (fuel - 1) (2 * x) - 1)"

declare exponent_up.simps [simp del] exponent_down.simps [simp del]

definition float_exponent :: "real \<Rightarrow> int" where
  "float_exponent x = (if 1 \<le> x then exponent_up 1023 x else exponent_down 1022 x)"

definition pow2 :: "int \<Rightarrow> real" where
  "pow2 e = (if 0 \<le> e then 2 ^ nat e else 1 / 2 ^ nat (- e))"

definition round_float64 :: "real \<Rightarrow> real" where
  "round_float64 x =
     (if x = 0 then 0
      else (let ulp = pow2 (float_exponent \<bar>x\<bar> - 52)
            in sgn x * (of_int (round_even (\<bar>x\<bar> / ulp)) * ulp)))"

text \<open>
  \<^verbatim>\<open>np.mean\<close> of the counts: their sum, exact in float64 for counts of samples, divided by
  their number, the quotient rounded. \<open>float_mul\<close> is the product of two floats.
\<close>

definition np_mean :: "nat list \<Rightarrow> real" where
  "np_mean vs = round_float64 (real (sum_list vs) / real (length vs))"

definition float_mul :: "real \<Rightarrow> real \<Rightarrow> real" where
  "float_mul x y = round_float64 (x * y)"

text \<open>
  \<^verbatim>\<open>.astype('uint32')\<close> of a float: the fraction is cut off towards zero. Outside the
  range of the type the result depends on the platform; the model wraps modulo 2^32.
\<close>

definition astype_uint32 :: "real \<Rightarrow> nat" where
  "astype_uint32 x = nat ((if x < 0 then \<lceil>x\<rceil> else \<lfloor>x\<rfloor>) mod 2 ^ 32)"

text \<open>The loop over \<^verbatim>\<open>enumerate(bins[1:])\<close>, with the list \<open>drop\<close> and the generator as state.\<close>

fun drop_loop ::
  "real list \<Rightarrow> real list \<Rightarrow> nat \<Rightarrow> nat list \<Rightarrow> nat list \<Rightarrow> rng \<Rightarrow> error + nat list \<times> rng" where
  "drop_loop bins angles max_wanted [] drop_acc g = Inr (drop_acc, g)"
| "drop_loop bins angles max_wanted (i # is) drop_acc g =
     (let ba = bin_angles bins angles i in
      if max_wanted < length ba then
        (case np_random_choice g ba (length ba - max_wanted) of
           Inl e \<Rightarrow> Inl e
         | Inr (drop_idx, g') \<Rightarrow> drop_loop bins angles max_wanted is (drop_acc @ drop_idx) g')
      else drop_loop bins angles max_wanted is drop_acc g)"

text \<open>
  \<^verbatim>\<open>np.delete(arr, obj, axis = 0)\<close> for a list of positions: an out-of-range position
  raises IndexError, a duplicate counts once, the rest keeps its order. A two-dimensional
  array stays two-dimensional, also when no row is left.
\<close>

definition np_delete :: "'a list \<Rightarrow> nat list \<Rightarrow> error + 'a list" where
  "np_delete arr obj =
     (if list_all (\<lambda>i. i < length arr) obj then Inr (nths arr (- set obj))
      else Inl IndexError)"

fun np_delete_rows :: "marray \<Rightarrow> nat list \<Rightarrow> error + marray" where
  "np_delete_rows Shape0 obj = (if obj = [] then Inr Shape0 else Inl IndexError)"
| "np_delete_rows (Rows2D ms) obj =
     (case np_delete ms obj of Inl e \<Rightarrow> Inl e | Inr ms' \<Rightarrow> Inr (Rows2D ms'))"

text \<open>
  \<^verbatim>\<open>_normalize\<close>. \<^verbatim>\<open>np.histogram(angles, bins = 'auto')\<close> is numpy's; the model takes it as
  the parameter \<open>histogram\<close>, which returns the counts and the bin edges.
  \<^verbatim>\<open>process_data\<close> calls the method only with a factor set; multiplying by \<^verbatim>\<open>None\<close>
  raises TypeError.
\<close>

definition normalize_dataset ::
  "(real list \<Rightarrow> nat list \<times> real list) \<Rightarrow> DataLoader \<Rightarrow> rng \<Rightarrow> string list \<Rightarrow> marray
     \<Rightarrow> error + string list \<times> marray \<times> rng" where
  "normalize_dataset histogram self g images measurements =
     (case column0 measurements of
        Inl e \<Rightarrow> Inl e
      | Inr angles \<Rightarrow>
          (case histogram angles of
             (vals, bins) \<Rightarrow>
               (case normalize_factor self of
                  None \<Rightarrow> Inl TypeError
                | Some factor \<Rightarrow>
                    (let max_wanted = astype_uint32 (float_mul (np_mean vals) factor) in
                     case drop_loop bins angles max_wanted [0..<length bins - 1] [] g of
                       Inl e \<Rightarrow> Inl e
                     | Inr (drop_list, g') \<Rightarrow>
                         (case np_delete images drop_list of
                            Inl e \<Rightarrow> Inl e
                          | Inr norm_images \<Rightarrow>
                              (case np_delete_rows measurements drop_list of
                                 Inl e \<Rightarrow> Inl e
                               | Inr norm_measurements \<Rightarrow>
                                   Inr (norm_images, norm_measurements, g')))))))"

section \<open>Flipping\<close>

text \<open>
  An image is its rows of pixels. The image folder is a map from paths to images,
  together with the list of the paths written so far, in order.
\<close>

type_synonym image = "(nat \<times> nat \<times> nat) list list"

record disk =
  files :: "string \<rightharpoonup> image"
  written :: "string list"

text \<open>\<^verbatim>\<open>os.path.join\<close> of two components, as on POSIX.\<close>

definition os_path_join :: "string \<Rightarrow> string \<Rightarrow> string" where
  "os_path_join a b =
     (if b \<noteq> [] \<and> hd b = CHR ''/'' then b
      else if a = [] \<or> last a = CHR ''/'' then a @ b
      else a @ ''/'' @ b)"

definition os_path_isfile :: "disk \<Rightarrow> string \<Rightarrow> bool" where
  "os_path_isfile d p = (files d p \<noteq> None)"

text \<open>\<^verbatim>\<open>cv2.imread\<close> does not raise on a missing file: it returns \<^verbatim>\<open>None\<close>.\<close>

definition cv2_imread :: "disk \<Rightarrow> string \<Rightarrow> image option" where
  "cv2_imread d p = files d p"

text \<open>\<^verbatim>\<open>cv2.flip(img, 1)\<close> mirrors every row; on \<^verbatim>\<open>None\<close> it raises.\<close>

definition cv2_flip :: "image option \<Rightarrow> error + image" where
  "cv2_flip img = (case img of None \<Rightarrow> Inl CvError | Some rows \<Rightarrow> Inr (map rev rows))"

definition cv2_imwrite :: "disk \<Rightarrow> string \<Rightarrow> image \<Rightarrow> disk" where
  "cv2_imwrite d p img = d\<lparr>files := (files d)(p \<mapsto> img), written := written d @ [p]\<rparr>"

text \<open>
  \<^verbatim>\<open>np.append(arr, values, axis = 0)\<close> is \<^verbatim>\<open>concatenate((arr, values), axis = 0)\<close>, which
  raises ValueError unless both have the same number of dimensions. The empty Python list
  becomes a one-dimensional array, a non-empty list of triples a two-dimensional one.
\<close>

fun np_append_rows :: "marray \<Rightarrow> measurement list \<Rightarrow> error + marray" where
  "np_append_rows Shape0 [] = Inr Shape0"
| "np_append_rows Shape0 (v # vs) = Inl ValueError"
| "np_append_rows (Rows2D ms) [] = Inl ValueError"
| "np_append_rows (Rows2D ms) (v # vs) = Inr (Rows2D (ms @ v # vs))"

text \<open>
  The loop of \<^verbatim>\<open>_flip_images\<close> over \<^verbatim>\<open>zip(images, measurements)\<close>, with the disk and the two
  new lists as state. Comparing a float with \<^verbatim>\<open>None\<close> raises TypeError.
\<close>

fun flip_loop ::
  "DataLoader \<Rightarrow> (string \<times> measurement) list \<Rightarrow> disk \<Rightarrow> string list \<Rightarrow> measurement list
     \<Rightarrow> error + string list \<times> measurement list \<times> disk" where
  "flip_loop self [] d new_images new_measurements = Inr (new_images, new_measurements, d)"
| "flip_loop self ((image_name, (steering_angle, throttle, break_force)) # rest) d
       new_images new_measurements =
     (case flip_min_angle self of
        None \<Rightarrow> Inl TypeError
      | Some min_angle \<Rightarrow>
          if min_angle \<le> steering_angle \<or> steering_angle \<le> - min_angle then
            (let img_flipped_name = ''flipped_'' @ image_name;
                 img_flipped_path = os_path_join (img_folder self) img_flipped_name
             in if \<not> os_path_isfile d img_flipped_path then
                  (case cv2_flip (cv2_imread d (os_path_join (img_folder self) image_name)) of
                     Inl e \<Rightarrow> Inl e
                   | Inr img_flipped \<Rightarrow>
                       flip_loop self rest (cv2_imwrite d img_flipped_path img_flipped)
                         (new_images @ [img_flipped_name])
                         (new_measurements @ [(- steering_angle, throttle, break_force)]))
                else flip_loop self rest d (new_images @ [img_flipped_name])
                       (new_measurements @ [(- steering_angle, throttle, break_force)]))
          else flip_loop self rest d new_images new_measurements)"

definition flip_images ::
  "DataLoader \<Rightarrow> disk \<Rightarrow> string list \<Rightarrow> marray \<Rightarrow> error + string list \<times> marray \<times> disk" where
  "flip_images self d images measurements =
     (case flip_loop self (zip images (rows_of measurements)) d [] [] of
        Inl e \<Rightarrow> Inl e
      | Inr (new_images, new_measurements, d') \<Rightarrow>
          (case np_append_rows measurements new_measurements of
             Inl e \<Rightarrow> Inl e
           | Inr measurements_out \<Rightarrow> Inr (images @ new_images, measurements_out, d')))"

section \<open>Building and caching the dataset\<close>

text \<open>\<^verbatim>\<open>_process_data\<close>: the log, then the two optional stages.\<close>

definition process_data ::
  "(string \<Rightarrow> real option) \<Rightarrow> (real list \<Rightarrow> nat list \<times> real list) \<Rightarrow> DataLoader
     \<Rightarrow> rng \<Rightarrow> disk \<Rightarrow> string list list \<Rightarrow> error + string list \<times> marray \<times> rng \<times> disk" where
  "process_data to_float histogram self g d csv_rows =
     (case load_data_log to_float self csv_rows of
        Inl e \<Rightarrow> Inl e
      | Inr (images, measurements) \<Rightarrow>
          (case (if normalize_factor self \<noteq> None
                 then normalize_dataset histogram self g images measurements
                 else Inr (images, measurements, g)) of
             Inl e \<Rightarrow> Inl e
           | Inr (images', measurements', g') \<Rightarrow>
               (if flip_min_angle self \<noteq> None then
                  (case flip_images self d images' measurements' of
                     Inl e \<Rightarrow> Inl e
                   | Inr (images'', measurements'', d') \<Rightarrow>
                       Inr (images'', measurements'', g', d'))
                else Inr (images', measurements', g', d))))"

text \<open>
  The training file holds one pickled dictionary. \<^verbatim>\<open>pickle.dump\<close> and \<^verbatim>\<open>pickle.load\<close> are
  the library's: the model keeps the dictionary itself under the path, as the list of
  its items.
\<close>

datatype pyobj = PyImages "string list" | PyMeasurements marray

type_synonym pickles = "string \<rightharpoonup> (string \<times> pyobj) list"

definition save_pickle :: "DataLoader \<Rightarrow> pickles \<Rightarrow> string list \<Rightarrow> marray \<Rightarrow> pickles" where
  "save_pickle self store images measurements =
     (let results = [(''images'', PyImages images),
                     (''measurements'', PyMeasurements measurements)]
      in store(train_file self \<mapsto> results))"

definition read_pickle :: "DataLoader \<Rightarrow> pickles \<Rightarrow> error + pyobj \<times> pyobj" where
  "read_pickle self store =
     (case store (train_file self) of
        None \<Rightarrow> Inl FileNotFoundError
      | Some train \<Rightarrow>
          (case map_of train ''images'' of
             None \<Rightarrow> Inl KeyError
           | Some images \<Rightarrow>
               (case map_of train ''measurements'' of
                  None \<Rightarrow> Inl KeyError
                | Some measurements \<Rightarrow> Inr (images, measurements))))"

section \<open>The batch generator\<close>

text \<open>
  \<^verbatim>\<open>_load_image\<close>. \<^verbatim>\<open>process_image\<close> comes from the module \<^verbatim>\<open>image_processor\<close>, which is not
  part of the sources at hand: it is a parameter, a function of what \<^verbatim>\<open>cv2.imread\<close>
  returns.
\<close>

definition load_image :: "(image option \<Rightarrow> 'a) \<Rightarrow> DataLoader \<Rightarrow> disk \<Rightarrow> string \<Rightarrow> 'a" where
  "load_image process_image self d image_file =
     process_image (cv2_imread d (os_path_join (img_folder self) image_file))"

text \<open>
  \<^verbatim>\<open>sklearn.utils.shuffle\<close> draws one permutation of the positions and indexes every array
  with it, returning new arrays; arrays of different lengths raise ValueError.
\<close>

fun take_rows :: "marray \<Rightarrow> nat list \<Rightarrow> marray" where
  "take_rows Shape0 perm = Shape0"
| "take_rows (Rows2D ms) perm = Rows2D (map ((!) ms) perm)"

definition shuffle :: "rng \<Rightarrow> string list \<Rightarrow> marray \<Rightarrow> error + string list \<times> marray \<times> rng" where
  "shuffle g images measurements =
     (if length images \<noteq> len_m measurements then Inl ValueError
      else (case pick g [0..<length images] (length images) of
              (perm, g') \<Rightarrow> Inr (map ((!) images) perm, take_rows measurements perm, g')))"

text \<open>The slice \<^verbatim>\<open>measurements[lo:hi]\<close> keeps the number of dimensions.\<close>

fun slice_rows :: "marray \<Rightarrow> nat \<Rightarrow> nat \<Rightarrow> marray" where
  "slice_rows Shape0 lo hi = Shape0"
| "slice_rows (Rows2D ms) lo hi = Rows2D (take (hi - lo) (drop lo ms))"

text \<open>
  A generator object is either not started yet (it holds the arguments of the call),
  suspended at the \<^verbatim>\<open>yield\<close> (it holds the shuffled arrays, \<^verbatim>\<open>num_samples\<close>, the batch
  size and the offset of the batch just yielded), or finished.
\<close>

datatype gen_state =
    Created "string list" marray int
  | Suspended "string list" marray nat int nat
  | Closed

text \<open>The body of the \<^verbatim>\<open>for\<close> loop, up to the \<^verbatim>\<open>yield\<close>.\<close>

definition yield_batch ::
  "(string \<Rightarrow> 'a) \<Rightarrow> rng \<Rightarrow> string list \<Rightarrow> marray \<Rightarrow> nat \<Rightarrow> int \<Rightarrow> nat
     \<Rightarrow> error + ('a list \<times> real list) \<times> rng \<times> gen_state" where
  "yield_batch ld g images measurements num_samples batch_size offset =
     (let images_batch = take (nat batch_size) (drop offset images);
          measurements_batch = slice_rows measurements offset (offset + nat batch_size);
          X_batch = map ld images_batch
      in case column0 measurements_batch of
           Inl e \<Rightarrow> Inl e
         | Inr Y_batch \<Rightarrow>
             Inr ((X_batch, Y_batch), g,
                  Suspended images measurements num_samples batch_size offset))"

text \<open>
  The \<^verbatim>\<open>while True\<close> loop from its top to the first \<^verbatim>\<open>yield\<close>. \<^verbatim>\<open>range(0, n, 0)\<close> raises
  ValueError; the range is empty when the step is negative or \<^verbatim>\<open>n\<close> is 0, and then the
  loop goes round again without yielding. \<open>None\<close> is the loop that never yields.
\<close>

partial_function (option) epoch_loop ::
  "(string \<Rightarrow> 'a) \<Rightarrow> rng \<Rightarrow> string list \<Rightarrow> marray \<Rightarrow> nat \<Rightarrow> int
     \<Rightarrow> (error + ('a list \<times> real list) \<times> rng \<times> gen_state) option" where
  "epoch_loop ld g images measurements num_samples batch_size =
     (case shuffle g images measurements of
        Inl e \<Rightarrow> Some (Inl e)
      | Inr (images', measurements', g') \<Rightarrow>
          if batch_size = 0 then Some (Inl ValueError)
          else if 0 < batch_size \<and> 0 < num_samples then
            Some (yield_batch ld g' images' measurements' num_samples batch_size 0)
          else epoch_loop ld g' images' measurements' num_samples batch_size)"

text \<open>
  One \<^verbatim>\<open>next()\<close> on the generator. The first one runs the function from its start; a
  later one resumes in the \<^verbatim>\<open>for\<close> loop, which goes on to the next offset of the range
  or, at its end, back to the top of the \<^verbatim>\<open>while\<close> loop.
\<close>

fun gen_next ::
  "(string \<Rightarrow> 'a) \<Rightarrow> rng \<times> gen_state
     \<Rightarrow> (error + ('a list \<times> real list) \<times> rng \<times> gen_state) option" where
  "gen_next ld (g, Created images measurements batch_size) =
     (let num_samples = length images in
      if num_samples \<noteq> len_m measurements then Some (Inl AssertionError)
      else epoch_loop ld g images measurements num_samples batch_size)"
| "gen_next ld (g, Suspended images measurements num_samples batch_size offset) =
     (if int offset + batch_size < int num_samples then
        Some (yield_batch ld g images measurements num_samples batch_size
                (nat (int offset + batch_size)))
      else epoch_loop ld g images measurements num_samples batch_size)"
| "gen_next ld (g, Closed) = Some (Inl StopIteration)"

text \<open>The consumer: \<open>k\<close> calls of \<^verbatim>\<open>next()\<close> in a row, collecting the batches.\<close>

fun gen_take ::
  "(string \<Rightarrow> 'a) \<Rightarrow> nat \<Rightarrow> rng \<times> gen_state
     \<Rightarrow> (error + ('a list \<times> real list) list \<times> rng \<times> gen_state) option" where
  "gen_take ld 0 s = Some (Inr ([], s))"
| "gen_take ld (Suc k) s =
     (case gen_next ld s of
        None \<Rightarrow> None
      | Some (Inl e) \<Rightarrow> Some (Inl e)
      | Some (Inr (batch, s')) \<Rightarrow>
          (case gen_take ld k s' of
             None \<Rightarrow> None
           | Some (Inl e) \<Rightarrow> Some (Inl e)
           | Some (Inr (batches, s'')) \<Rightarrow> Some (Inr (batch # batches, s''))))"

section \<open>Vocabulary of the properties\<close>

text \<open>
  A sample is an image name with its measurement. A sample qualifies for flipping when
  the absolute value of its steering angle reaches the threshold; its flipped
  counterpart has the prefixed name and the negated angle, and lives at the prefixed
  name's path in the image folder.
\<close>

definition qualifies :: "real \<Rightarrow> string \<times> measurement \<Rightarrow> bool" where
  "qualifies min_angle s = (case s of (name, (a, t, b)) \<Rightarrow> min_angle \<le> \<bar>a\<bar>)"

definition flipped_sample :: "string \<times> measurement \<Rightarrow> string \<times> measurement" where
  "flipped_sample s = (case s of (name, (a, t, b)) \<Rightarrow> (''flipped_'' @ name, (- a, t, b)))"

definition flipped_path :: "DataLoader \<Rightarrow> string \<times> measurement \<Rightarrow> string" where
  "flipped_path self s = os_path_join (img_folder self) (''flipped_'' @ fst s)"

text \<open>Concrete inputs for running the model.\<close>

definition example_loader :: DataLoader where
  "example_loader =
     (new_DataLoader ''train.p'' ''driving_log.csv'' ''IMG'')\<lparr>path_separator := ''/''\<rparr>"

definition example_disk :: disk where
  "example_disk = \<lparr>files = [''IMG/a.jpg'' \<mapsto> [[(1, 2, 3), (4, 5, 6)]]], written = []\<rparr>"

definition zero_rng :: rng where
  "zero_rng = (\<lambda>i. 0)"

definition flipped_disk :: disk where
  "flipped_disk =
     \<lparr>files = [''IMG/a.jpg'' \<mapsto> [[(1, 2, 3), (4, 5, 6)]],
               ''IMG/flipped_a.jpg'' \<mapsto> [[(4, 5, 6), (1, 2, 3)]]],
      written = [''IMG/flipped_a.jpg'']\<rparr>"

text \<open>
  \<^verbatim>\<open>np.histogram\<close> with a given number \<open>k\<close> of bins: \<open>k\<close> bins of equal width over the
  range of the data (over 0 to 1 for no data, and widened by one half on each side when
  all the data are equal), the last bin closed on the right. For the angles 0, 0, 0, 1
  of the examples below the rule \<^verbatim>\<open>bins = 'auto'\<close> picks four bins.
\<close>

definition np_linspace :: "real \<Rightarrow> real \<Rightarrow> nat \<Rightarrow> real list" where
  "np_linspace lo hi k = map (\<lambda>i. lo + real i * (hi - lo) / real k) [0..<Suc k]"

definition data_range :: "real list \<Rightarrow> real \<times> real" where
  "data_range a =
     (case a of
        [] \<Rightarrow> (0, 1)
      | x # xs \<Rightarrow>
          (let lo = fold min xs x; hi = fold max xs x
           in if lo = hi then (lo - 1 / 2, hi + 1 / 2) else (lo, hi)))"

definition equal_width_histogram :: "nat \<Rightarrow> real list \<Rightarrow> nat list \<times> real list" where
  "equal_width_histogram k a =
     (case data_range a of
        (lo, hi) \<Rightarrow>
          (let edges = np_linspace lo hi k
           in (map (\<lambda>i. length (filter (in_bin edges i) a)) [0..<k], edges)))"

definition example_histogram :: "real list \<Rightarrow> nat list \<times> real list" where
  "example_histogram = equal_width_histogram 4"

text \<open>
  Thirty samples, fifteen with angle 0, fourteen with 0.15 and one with 1, for which the
  rule \<^verbatim>\<open>bins = 'auto'\<close> picks eleven bins.
\<close>

definition thirty_rows :: "measurement list" where
  "thirty_rows = replicate 15 (0, 0, 0) @ replicate 14 (15 / 100, 0, 0) @ [(1, 0, 0)]"

text \<open>
  The batch cut at an offset of the shuffled arrays; the sizes of the batches of one
  epoch over \<open>n\<close> samples, and their number; and the states in which the next
  \<^verbatim>\<open>next()\<close> starts a new epoch on the arrays the state holds.
\<close>

definition chunk :: "(string \<Rightarrow> 'a) \<Rightarrow> string list \<Rightarrow> measurement list \<Rightarrow> nat \<Rightarrow> nat \<Rightarrow> 'a list \<times> real list" where
  "chunk ld imgs rws B off = (map ld (take B (drop off imgs)), map fst (take B (drop off rws)))"

definition chunk_sizes :: "nat \<Rightarrow> nat \<Rightarrow> nat list" where
  "chunk_sizes n B = replicate (n div B) B @ (if n mod B = 0 then [] else [n mod B])"

definition chunks_per_epoch :: "nat \<Rightarrow> nat \<Rightarrow> nat" where
  "chunks_per_epoch n B = (n + B - 1) div B"

definition at_epoch_end :: "nat \<Rightarrow> nat \<Rightarrow> string list \<Rightarrow> measurement list \<Rightarrow> gen_state \<Rightarrow> bool" where
  "at_epoch_end n B imgs rws st \<longleftrightarrow>
     st = Created imgs (Rows2D rws) (int B) \<or>
     (\<exists>off. st = Suspended imgs (Rows2D rws) n (int B) off \<and> n \<le> off + B)"

definition example_load :: "string \<Rightarrow> image option" where
  "example_load = load_image (\<lambda>img. img) example_loader example_disk"

definition ten_images :: "string list" where
  "ten_images = [''0.jpg'', ''1.jpg'', ''2.jpg'', ''3.jpg'', ''4.jpg'', ''5.jpg'',
     ''6.jpg'', ''7.jpg'', ''8.jpg'', ''9.jpg'']"

definition ten_rows :: "measurement list" where
  "ten_rows = map (\<lambda>i. (real i / 10, 1, 0)) [0..<10]"

section \<open>Properties of the parser\<close>

lemma np_clip_cases:
  "np_clip (- 1) 1 x = (if x < - 1 then - 1 else if 1 < x then 1 else x)"
  by (simp add: np_clip_def min_def max_def)

lemma parse_line_six:
  assumes "path_separator self \<noteq> []"
    and "to_float f3 = Some s" and "to_float f4 = Some t" and "to_float f5 = Some b"
  shows "parse_line to_float self (f0 # f1 # f2 # f3 # f4 # f5 # rest) =
     (case angle_correction self of
        None \<Rightarrow> Inr ([last (split_on (path_separator self) [] f0)], [(s, t, b)])
      | Some corr \<Rightarrow>
          Inr ([last (split_on (path_separator self) [] f0),
                last (split_on (path_separator self) [] f1),
                last (split_on (path_separator self) [] f2)],
               [clip_row (s, t, b), clip_row (s + corr, t, b), clip_row (s - corr, t, b)]))"
  using assms
  by (simp add: parse_line_def last_component_def str_split_def py_float_def
      split: option.splits)

lemmas float_decimal_eval =
  unsigned_decimal_def digit_val_def py_float_def

text \<open>
  C2. The line IMG/c.jpg, IMG/l.jpg, IMG/r.jpg, 0.5, 0.2, 0.0 with separator / and
  correction 0.1 parses to the images c.jpg, l.jpg, r.jpg and the measurements
  (0.5, 0.2, 0.0), (0.6, 0.2, 0.0), (0.4, 0.2, 0.0).
\<close>

theorem parse_line_example:
  "angle_correction example_loader = Some (1 / 10) \<and>
   parse_line float_decimal example_loader
     [''IMG/c.jpg'', ''IMG/l.jpg'', ''IMG/r.jpg'', ''0.5'', ''0.2'', ''0.0''] =
   Inr ([''c.jpg'', ''l.jpg'', ''r.jpg''],
        [(5 / 10, 2 / 10, 0), (6 / 10, 2 / 10, 0), (4 / 10, 2 / 10, 0)])"
  by (simp add: parse_line_def example_loader_def new_DataLoader_def last_component_def
      str_split_def float_decimal_eval clip_row_def np_clip_def)

text \<open>
  C3. With a correction set, a line whose six fields parse yields three rows, each the
  row before clipping with every component (steering, throttle and brake alike) clipped
  to the interval from -1 to 1. For steering 0.95 and correction 0.1 the left angle,
  the clipped 1.05, is exactly 1.
\<close>

theorem parse_line_clips_all_rows:
  assumes "path_separator self \<noteq> []" and "angle_correction self = Some corr"
    and "to_float f3 = Some s" and "to_float f4 = Some t" and "to_float f5 = Some b"
  shows "parse_line to_float self (f0 # f1 # f2 # f3 # f4 # f5 # rest) =
     Inr ([last (split_on (path_separator self) [] f0),
           last (split_on (path_separator self) [] f1),
           last (split_on (path_separator self) [] f2)],
          [(np_clip (- 1) 1 s, np_clip (- 1) 1 t, np_clip (- 1) 1 b),
           (np_clip (- 1) 1 (s + corr), np_clip (- 1) 1 t, np_clip (- 1) 1 b),
           (np_clip (- 1) 1 (s - corr), np_clip (- 1) 1 t, np_clip (- 1) 1 b)]) \<and>
     (\<forall>x. np_clip (- 1) 1 x = (if x < - 1 then - 1 else if 1 < x then 1 else x)) \<and>
     np_clip (- 1) 1 (95 / 100 + 1 / 10) = 1"
  using assms parse_line_six [of self to_float f3 s f4 t f5 b f0 f1 f2 rest]
  by (simp add: clip_row_def np_clip_cases)

text \<open>
  The line with steering 0.95, throttle 1.5 and brake -2 under correction 0.1: the left
  angle 1.05 becomes exactly 1, the throttle 1 and the brake -1 in all three rows.
\<close>

theorem parse_line_clips_all_rows_witness:
  "parse_line float_decimal example_loader
     [''IMG/c.jpg'', ''IMG/l.jpg'', ''IMG/r.jpg'', ''0.95'', ''1.5'', ''-2''] =
   Inr ([''c.jpg'', ''l.jpg'', ''r.jpg''],
        [(95 / 100, 1, - 1), (1, 1, - 1), (85 / 100, 1, - 1)])"
  using parse_line_clips_all_rows [of example_loader "1 / 10" float_decimal
      "''0.95''" "95 / 100" "''1.5''" "15 / 10" "''-2''" "- 2"
      "''IMG/c.jpg''" "''IMG/l.jpg''" "''IMG/r.jpg''" "[]"]
  by (simp add: example_loader_def new_DataLoader_def float_decimal_eval np_clip_def)

text \<open>
  C4, as the code has it. The centre sample always comes first, under the bare file name
  of the first field. Without a correction its measurement is the parsed one. With a
  correction the centre row goes through the same \<^verbatim>\<open>np.clip\<close> as the other two: its
  measurement is the parsed one with steering, throttle and brake each clipped to the
  interval from -1 to 1, hence the parsed one whenever the three values lie in that
  interval.
\<close>

theorem parse_line_center_sample:
  assumes "path_separator self \<noteq> []"
    and "to_float f3 = Some s" and "to_float f4 = Some t" and "to_float f5 = Some b"
  shows "\<exists>m imgs ms.
     parse_line to_float self (f0 # f1 # f2 # f3 # f4 # f5 # rest) =
       Inr (last (split_on (path_separator self) [] f0) # imgs, m # ms) \<and>
     (angle_correction self = None \<longrightarrow> m = (s, t, b)) \<and>
     (angle_correction self \<noteq> None \<longrightarrow>
        m = (np_clip (- 1) 1 s, np_clip (- 1) 1 t, np_clip (- 1) 1 b)) \<and>
     (- 1 \<le> s \<and> s \<le> 1 \<and> - 1 \<le> t \<and> t \<le> 1 \<and> - 1 \<le> b \<and> b \<le> 1 \<longrightarrow> m = (s, t, b))"
  using parse_line_six [OF assms, of f0 f1 f2 rest]
  by (cases "angle_correction self") (auto simp: clip_row_def np_clip_def)

text \<open>
  Under correction 0.1 the line with steering 1.5, throttle 1.5 and brake -2 gives the
  centre row (1, 1, -1).
\<close>

theorem parse_line_center_sample_witness:
  "\<exists>m imgs ms.
     parse_line float_decimal example_loader
       [''IMG/c.jpg'', ''IMG/l.jpg'', ''IMG/r.jpg'', ''1.5'', ''1.5'', ''-2''] =
       Inr (''c.jpg'' # imgs, m # ms) \<and> m = (1, 1, - 1)"
proof -
  have sep: "path_separator example_loader \<noteq> []"
    by (simp add: example_loader_def new_DataLoader_def)
  have corr: "angle_correction example_loader \<noteq> None"
    by (simp add: example_loader_def new_DataLoader_def)
  have f3: "float_decimal ''1.5'' = Some (15 / 10)"
    and f4: "float_decimal ''1.5'' = Some (15 / 10)"
    and f5: "float_decimal ''-2'' = Some (- 2)"
    by (simp_all add: float_decimal_eval)
  have name: "last (split_on (path_separator example_loader) [] ''IMG/c.jpg'') = ''c.jpg''"
    by (simp add: example_loader_def new_DataLoader_def)
  have clip: "(np_clip (- 1) 1 (15 / 10), np_clip (- 1) 1 (15 / 10), np_clip (- 1) 1 (- 2)) =
      (1, 1, - 1)"
    by (simp add: np_clip_def)
  from parse_line_center_sample [of example_loader float_decimal
      "''1.5''" "15 / 10" "''1.5''" "15 / 10" "''-2''" "- 2"
      "''IMG/c.jpg''" "''IMG/l.jpg''" "''IMG/r.jpg''" "[]", OF sep f3 f4 f5]
  obtain m imgs ms where
    "parse_line float_decimal example_loader
       [''IMG/c.jpg'', ''IMG/l.jpg'', ''IMG/r.jpg'', ''1.5'', ''1.5'', ''-2''] =
       Inr (''c.jpg'' # imgs, m # ms)"
    and "m = (1, 1, - 1)"
    unfolding name clip using corr by blast
  then show ?thesis by blast
qed

text \<open>
  C4 as stated fails: with correction 0.1 the line with steering 1.5 parses to the value
  1.5, and the centre row that comes out has steering 1.
\<close>

theorem parse_line_center_counterexample:
  "py_float float_decimal ''1.5'' = Inr (15 / 10) \<and>
   parse_line float_decimal example_loader
     [''IMG/c.jpg'', ''IMG/l.jpg'', ''IMG/r.jpg'', ''1.5'', ''0.2'', ''0.0''] =
   Inr ([''c.jpg'', ''l.jpg'', ''r.jpg''],
        [(1, 2 / 10, 0), (1, 2 / 10, 0), (1, 2 / 10, 0)]) \<and>
   (15 / 10 :: real) \<noteq> 1"
  by (simp add: parse_line_def example_loader_def new_DataLoader_def last_component_def
      str_split_def float_decimal_eval clip_row_def np_clip_def)

section \<open>Properties of the flipping stage\<close>

lemma flip_loop_Cons:
  "flip_min_angle self = Some m \<Longrightarrow>
   flip_loop self (s # rest) d ni nm =
     (if qualifies m s then
        (if files d (flipped_path self s) = None then
           (case files d (os_path_join (img_folder self) (fst s)) of
              None \<Rightarrow> Inl CvError
            | Some img \<Rightarrow>
                flip_loop self rest (cv2_imwrite d (flipped_path self s) (map rev img))
                  (ni @ [fst (flipped_sample s)]) (nm @ [snd (flipped_sample s)]))
         else flip_loop self rest d (ni @ [fst (flipped_sample s)])
                (nm @ [snd (flipped_sample s)]))
      else flip_loop self rest d ni nm)"
  by (cases s)
    (auto simp: qualifies_def flipped_sample_def flipped_path_def Let_def os_path_isfile_def
      cv2_flip_def cv2_imread_def split: option.splits)

lemma flip_loop_no_threshold:
  "flip_min_angle self = None \<Longrightarrow> flip_loop self (s # rest) d ni nm = Inl TypeError"
  by (cases s) auto

text \<open>What the loop appends, when it returns.\<close>

lemma flip_loop_result:
  "flip_loop self samples d ni nm = Inr (ni', nm', d') \<Longrightarrow> flip_min_angle self = Some m \<Longrightarrow>
   ni' = ni @ map (fst \<circ> flipped_sample) (filter (qualifies m) samples) \<and>
   nm' = nm @ map (snd \<circ> flipped_sample) (filter (qualifies m) samples)"
proof (induction samples arbitrary: d ni nm)
  case Nil
  then show ?case by simp
next
  case (Cons s rest)
  from Cons.prems(1) show ?case
    unfolding flip_loop_Cons [OF Cons.prems(2)]
    by (auto split: if_splits option.splits dest!: Cons.IH [OF _ Cons.prems(2)])
qed

lemma flip_loop_lengths:
  "flip_loop self samples d ni nm = Inr (ni', nm', d') \<Longrightarrow> length ni = length nm \<Longrightarrow>
   length ni' = length nm'"
proof (cases "flip_min_angle self")
  case None
  assume "flip_loop self samples d ni nm = Inr (ni', nm', d')" and "length ni = length nm"
  with None show ?thesis
    by (cases samples) (simp_all add: flip_loop_no_threshold)
next
  case (Some m)
  assume "flip_loop self samples d ni nm = Inr (ni', nm', d')" and "length ni = length nm"
  with flip_loop_result [OF _ Some] show ?thesis by fastforce
qed

lemma cv2_imwrite_simps:
  "files (cv2_imwrite d p img) = (files d)(p \<mapsto> img)"
  "written (cv2_imwrite d p img) = written d @ [p]"
  by (simp_all add: cv2_imwrite_def)

text \<open>
  What the loop does to the disk, when it returns: no file that existed changes, the
  paths written are distinct derived paths of qualifying samples at which no file
  existed, and afterwards every qualifying sample has its flipped file.
\<close>

lemma flip_loop_disk:
  "flip_loop self samples d ni nm = Inr (ni', nm', d') \<Longrightarrow> flip_min_angle self = Some m \<Longrightarrow>
   (\<forall>p. files d p \<noteq> None \<longrightarrow> files d' p = files d p) \<and>
   (\<exists>ws. written d' = written d @ ws \<and> distinct ws \<and>
      (\<forall>p\<in>set ws. files d p = None \<and>
         (\<exists>s\<in>set samples. qualifies m s \<and> p = flipped_path self s))) \<and>
   (\<forall>s\<in>set samples. qualifies m s \<longrightarrow> files d' (flipped_path self s) \<noteq> None)"
proof (induction samples arbitrary: d ni nm)
  case Nil
  then show ?case by simp
next
  case (Cons s rest)
  note m = Cons.prems(2)
  let ?p = "flipped_path self s"
  consider (skip) "\<not> qualifies m s"
    | (cached) "qualifies m s" "files d ?p \<noteq> None"
    | (flip) "qualifies m s" "files d ?p = None" by blast
  then show ?case
  proof cases
    case skip
    with Cons.prems(1) have "flip_loop self rest d ni nm = Inr (ni', nm', d')"
      by (simp add: flip_loop_Cons [OF m])
    from Cons.IH [OF this m] skip show ?thesis by auto
  next
    case cached
    with Cons.prems(1)
    have "flip_loop self rest d (ni @ [fst (flipped_sample s)]) (nm @ [snd (flipped_sample s)])
       = Inr (ni', nm', d')"
      by (auto simp: flip_loop_Cons [OF m])
    from Cons.IH [OF this m] cached(2) show ?thesis by auto
  next
    case flip
    with Cons.prems(1) obtain img where
      run: "flip_loop self rest (cv2_imwrite d ?p img) (ni @ [fst (flipped_sample s)])
              (nm @ [snd (flipped_sample s)]) = Inr (ni', nm', d')"
      by (auto simp: flip_loop_Cons [OF m] split: option.splits)
    let ?d1 = "cv2_imwrite d ?p img"
    from Cons.IH [OF run m] have
      keep: "\<forall>p. files ?d1 p \<noteq> None \<longrightarrow> files d' p = files ?d1 p"
      and wr: "\<exists>ws. written d' = written ?d1 @ ws \<and> distinct ws \<and>
        (\<forall>p\<in>set ws. files ?d1 p = None \<and>
           (\<exists>s\<in>set rest. qualifies m s \<and> p = flipped_path self s))"
      and ex: "\<forall>s\<in>set rest. qualifies m s \<longrightarrow> files d' (flipped_path self s) \<noteq> None"
      by blast+
    from wr obtain ws where ws: "written d' = written ?d1 @ ws" "distinct ws"
      "\<forall>p\<in>set ws. files ?d1 p = None"
      "\<forall>p\<in>set ws. \<exists>s\<in>set rest. qualifies m s \<and> p = flipped_path self s" by blast
    have a1: "\<forall>p. files d p \<noteq> None \<longrightarrow> files d' p = files d p"
      using keep flip(2) by (auto simp: cv2_imwrite_simps)
    have "written d' = written d @ (?p # ws)" using ws(1) by (simp add: cv2_imwrite_simps)
    moreover have "distinct (?p # ws)" using ws(2,3) by (auto simp: cv2_imwrite_simps)
    moreover have "\<forall>q\<in>set (?p # ws). files d q = None"
      using ws(3) flip(2) by (auto simp: cv2_imwrite_simps split: if_splits)
    moreover have "\<forall>q\<in>set (?p # ws). \<exists>s'\<in>set (s # rest). qualifies m s' \<and> q = flipped_path self s'"
      using ws(4) flip(1) by auto
    ultimately have a2: "\<exists>ws. written d' = written d @ ws \<and> distinct ws \<and>
        (\<forall>p\<in>set ws. files d p = None \<and>
           (\<exists>s'\<in>set (s # rest). qualifies m s' \<and> p = flipped_path self s'))"
      by blast
    have "files d' ?p \<noteq> None" using keep by (simp add: cv2_imwrite_simps)
    then have a3: "\<forall>s'\<in>set (s # rest). qualifies m s' \<longrightarrow> files d' (flipped_path self s') \<noteq> None"
      using ex by auto
    from a1 a2 a3 show ?thesis by blast
  qed
qed

text \<open>With every flipped file already there the loop writes nothing.\<close>

lemma flip_loop_cached:
  "flip_min_angle self = Some m \<Longrightarrow>
   \<forall>s\<in>set samples. qualifies m s \<longrightarrow> files d (flipped_path self s) \<noteq> None \<Longrightarrow>
   flip_loop self samples d ni nm =
     Inr (ni @ map (fst \<circ> flipped_sample) (filter (qualifies m) samples),
          nm @ map (snd \<circ> flipped_sample) (filter (qualifies m) samples), d)"
proof (induction samples arbitrary: ni nm)
  case Nil
  then show ?case by simp
next
  case (Cons s rest)
  from Cons.prems
  have rest: "\<forall>s\<in>set rest. qualifies m s \<longrightarrow> files d (flipped_path self s) \<noteq> None"
    by simp
  from Cons.prems(2) have here: "qualifies m s \<Longrightarrow> files d (flipped_path self s) \<noteq> None"
    by simp
  show ?case
    using here by (auto simp: flip_loop_Cons [OF Cons.prems(1)] Cons.IH [OF Cons.prems(1) rest])
qed

lemma np_append_rows_len:
  "np_append_rows ms new = Inr ms' \<Longrightarrow>
   len_m ms' = len_m ms + length new \<and> rows_of ms' = rows_of ms @ new"
  by (cases ms; cases new) auto

lemma flip_images_lengths:
  "flip_images self d images ms = Inr (images', ms', d') \<Longrightarrow> length images = len_m ms \<Longrightarrow>
   length images' = len_m ms'"
  by (auto simp: flip_images_def split: sum.splits dest!: np_append_rows_len flip_loop_lengths)

text \<open>
  When \<^verbatim>\<open>_flip_images\<close> returns, its output is the input followed by the flipped
  counterparts of the qualifying samples, in order.
\<close>

lemma flip_images_appends:
  assumes "flip_images self d images ms = Inr (images', ms', d')"
    and "flip_min_angle self = Some m"
  shows "images' =
      images @ map (fst \<circ> flipped_sample) (filter (qualifies m) (zip images (rows_of ms)))"
    and "rows_of ms' =
      rows_of ms @ map (snd \<circ> flipped_sample) (filter (qualifies m) (zip images (rows_of ms)))"
  using assms
  by (auto simp: flip_images_def split: sum.splits dest!: np_append_rows_len flip_loop_result)

text \<open>
  It returns that output whenever at least one sample qualifies and every qualifying
  sample has its source image or its flipped image on the disk.
\<close>

lemma flip_loop_returns:
  "flip_min_angle self = Some m \<Longrightarrow>
   \<forall>s\<in>set samples. qualifies m s \<longrightarrow>
      files d (os_path_join (img_folder self) (fst s)) \<noteq> None \<or>
      files d (flipped_path self s) \<noteq> None \<Longrightarrow>
   \<exists>r. flip_loop self samples d ni nm = Inr r"
proof (induction samples arbitrary: d ni nm)
  case Nil
  then show ?case by simp
next
  case (Cons s rest)
  note m = Cons.prems(1)
  have keep: "\<forall>s\<in>set rest. qualifies m s \<longrightarrow>
      files d' (os_path_join (img_folder self) (fst s)) \<noteq> None \<or>
      files d' (flipped_path self s) \<noteq> None"
    if "\<And>p. files d p \<noteq> None \<Longrightarrow> files d' p \<noteq> None" for d'
    using Cons.prems(2) that by auto
  show ?case
  proof (cases "qualifies m s \<and> files d (flipped_path self s) = None")
    case False
    then show ?thesis
      using Cons.IH [OF m keep [of d]] by (auto simp: flip_loop_Cons [OF m])
  next
    case True
    with Cons.prems(2) obtain img where
      img: "files d (os_path_join (img_folder self) (fst s)) = Some img" by auto
    let ?d1 = "cv2_imwrite d (flipped_path self s) (map rev img)"
    have "\<And>p. files d p \<noteq> None \<Longrightarrow> files ?d1 p \<noteq> None"
      by (simp add: cv2_imwrite_simps)
    from Cons.IH [OF m keep [OF this]] True img show ?thesis
      by (simp add: flip_loop_Cons [OF m])
  qed
qed

lemma flip_images_returns:
  assumes "flip_min_angle self = Some m"
    and "\<forall>s\<in>set (zip images rows). qualifies m s \<longrightarrow>
      files d (os_path_join (img_folder self) (fst s)) \<noteq> None \<or>
      files d (flipped_path self s) \<noteq> None"
    and "filter (qualifies m) (zip images rows) \<noteq> []"
  shows "\<exists>d'. flip_images self d images (Rows2D rows) =
     Inr (images @ map (fst \<circ> flipped_sample) (filter (qualifies m) (zip images rows)),
          Rows2D (rows @ map (snd \<circ> flipped_sample) (filter (qualifies m) (zip images rows))),
          d')"
proof -
  from flip_loop_returns [OF assms(1,2), of "[]" "[]"] obtain ni nm d' where
    loop: "flip_loop self (zip images rows) d [] [] = Inr (ni, nm, d')"
    by (metis prod_cases3)
  from flip_loop_result [OF loop assms(1)]
  have ni: "ni = map (fst \<circ> flipped_sample) (filter (qualifies m) (zip images rows))"
    and nm: "nm = map (snd \<circ> flipped_sample) (filter (qualifies m) (zip images rows))"
    by simp_all
  from assms(3) have "nm \<noteq> []" by (simp add: nm)
  then obtain v vs where "nm = v # vs" by (cases nm) auto
  then have "np_append_rows (Rows2D rows) nm = Inr (Rows2D (rows @ nm))" by simp
  with loop show ?thesis by (simp add: flip_images_def ni nm [symmetric])
qed

text \<open>
  It does not return when the measurements are two-dimensional and no sample qualifies:
  \<^verbatim>\<open>np.append\<close> then gets a two-dimensional array and the empty list.
\<close>

lemma flip_images_nothing_to_flip:
  "flip_min_angle self = Some m \<Longrightarrow> filter (qualifies m) (zip images rows) = [] \<Longrightarrow>
   flip_images self d images (Rows2D rows) = Inl ValueError"
  using flip_loop_cached [of self m "zip images rows" d "[]" "[]"]
  by (simp add: flip_images_def filter_empty_conv)

lemmas flip_eval = flip_images_def example_loader_def new_DataLoader_def example_disk_def
  os_path_join_def os_path_isfile_def cv2_imread_def cv2_flip_def cv2_imwrite_def Let_def

lemma flip_images_example:
  "flip_images example_loader example_disk [''a.jpg''] (Rows2D [(1 / 10, 2, 3)]) =
   Inr ([''a.jpg'', ''flipped_a.jpg''], Rows2D [(1 / 10, 2, 3), (- 1 / 10, 2, 3)],
        flipped_disk)"
  by (simp add: flip_eval flipped_disk_def)

text \<open>
  C6, at the input where the code departs from it. With threshold 0.5 the one sample of
  steering 0.1 does not qualify, so the output should be the input unchanged;
  \<^verbatim>\<open>_flip_images\<close> raises ValueError instead, and so does the build of a one-line log
  without camera correction and normalisation.
\<close>

theorem flip_images_no_qualifying_sample:
  "flip_images (example_loader\<lparr>flip_min_angle := Some (1 / 2)\<rparr>) example_disk
     [''a.jpg''] (Rows2D [(1 / 10, 0, 0)]) = Inl ValueError \<and>
   process_data float_decimal example_histogram
     (example_loader\<lparr>angle_correction := None, normalize_factor := None,
        flip_min_angle := Some (1 / 2)\<rparr>)
     zero_rng example_disk
     [[''IMG/a.jpg'', ''IMG/b.jpg'', ''IMG/c.jpg'', ''0.1'', ''0.2'', ''0.0'']] =
   Inl ValueError"
  by (simp add: process_data_def load_data_log_def parse_line_def flip_images_def
      example_loader_def new_DataLoader_def last_component_def str_split_def
      float_decimal_eval)

text \<open>
  C7. When a run of \<^verbatim>\<open>_flip_images\<close> returns, the paths it wrote are distinct derived
  paths of qualifying samples at which no file existed before the run; a second run
  over the same images and measurements on the disk the first run left returns the same
  output, the flipped samples appended again, and leaves the disk and its list of writes
  as they were.
\<close>

theorem flip_images_writes_once:
  assumes run: "flip_images self d images ms = Inr (images1, ms1, d1)"
    and m: "flip_min_angle self = Some m"
  shows "(\<exists>ws. written d1 = written d @ ws \<and> distinct ws \<and>
            (\<forall>p\<in>set ws. \<not> os_path_isfile d p \<and>
               (\<exists>s\<in>set (zip images (rows_of ms)). qualifies m s \<and> p = flipped_path self s))) \<and>
         flip_images self d1 images ms = Inr (images1, ms1, d1) \<and>
         images1 =
           images @ map (fst \<circ> flipped_sample) (filter (qualifies m) (zip images (rows_of ms))) \<and>
         rows_of ms1 =
           rows_of ms @ map (snd \<circ> flipped_sample) (filter (qualifies m) (zip images (rows_of ms)))"
proof -
  let ?samples = "zip images (rows_of ms)"
  from run obtain ni nm where
    loop: "flip_loop self ?samples d [] [] = Inr (ni, nm, d1)"
    and app: "np_append_rows ms nm = Inr ms1" and out: "images1 = images @ ni"
    by (auto simp: flip_images_def split: sum.splits)
  from flip_loop_result [OF loop m]
  have ni: "ni = map (fst \<circ> flipped_sample) (filter (qualifies m) ?samples)"
    and nm: "nm = map (snd \<circ> flipped_sample) (filter (qualifies m) ?samples)" by simp_all
  from flip_loop_disk [OF loop m] have
    wr: "\<exists>ws. written d1 = written d @ ws \<and> distinct ws \<and>
      (\<forall>p\<in>set ws. files d p = None \<and>
         (\<exists>s\<in>set ?samples. qualifies m s \<and> p = flipped_path self s))"
    and ex: "\<forall>s\<in>set ?samples. qualifies m s \<longrightarrow> files d1 (flipped_path self s) \<noteq> None"
    by blast+
  from flip_loop_cached [OF m ex, of "[]" "[]"]
  have "flip_loop self ?samples d1 [] [] = Inr (ni, nm, d1)" by (simp add: ni nm)
  with app out have again: "flip_images self d1 images ms = Inr (images1, ms1, d1)"
    by (simp add: flip_images_def)
  from wr have "\<exists>ws. written d1 = written d @ ws \<and> distinct ws \<and>
            (\<forall>p\<in>set ws. \<not> os_path_isfile d p \<and>
               (\<exists>s\<in>set ?samples. qualifies m s \<and> p = flipped_path self s))"
    by (simp add: os_path_isfile_def)
  with again out ni nm np_append_rows_len [OF app] show ?thesis by simp
qed

theorem flip_images_writes_once_witness:
  "flip_images example_loader example_disk [''a.jpg''] (Rows2D [(1 / 10, 2, 3)]) =
     Inr ([''a.jpg'', ''flipped_a.jpg''], Rows2D [(1 / 10, 2, 3), (- 1 / 10, 2, 3)],
          flipped_disk) \<and>
   flip_images example_loader flipped_disk [''a.jpg''] (Rows2D [(1 / 10, 2, 3)]) =
     Inr ([''a.jpg'', ''flipped_a.jpg''], Rows2D [(1 / 10, 2, 3), (- 1 / 10, 2, 3)],
          flipped_disk) \<and>
   written example_disk = [] \<and> written flipped_disk = [''IMG/flipped_a.jpg'']"
proof -
  have m: "flip_min_angle example_loader = Some 0"
    by (simp add: example_loader_def new_DataLoader_def)
  from flip_images_writes_once [OF flip_images_example m] show ?thesis
    by (simp add: flip_images_example) (simp add: example_disk_def flipped_disk_def)
qed

section \<open>Properties of the cache and of the build\<close>

text \<open>
  C8. Reading the training file after saving a dataset to it gives back the images and
  the measurements that were saved.
\<close>

theorem pickle_round_trip:
  "read_pickle self (save_pickle self store images measurements) =
   Inr (PyImages images, PyMeasurements measurements)"
  by (simp add: read_pickle_def save_pickle_def)

text \<open>
  C10. An empty log gives a one-dimensional empty measurements array, and with
  normalisation enabled the build raises IndexError at the column access.
\<close>

theorem empty_log_normalize_raises:
  "normalize_factor self \<noteq> None \<Longrightarrow>
   load_data_log to_float self [] = Inr ([], Shape0) \<and>
   column0 Shape0 = Inl IndexError \<and>
   process_data to_float histogram self g d [] = Inl IndexError"
  by (simp add: process_data_def load_data_log_def normalize_dataset_def)

theorem empty_log_normalize_raises_witness:
  "normalize_factor example_loader = Some (5 / 2) \<and>
   process_data float_decimal example_histogram example_loader zero_rng example_disk [] =
     Inl IndexError"
  using empty_log_normalize_raises [of example_loader float_decimal example_histogram
      zero_rng example_disk]
  by (simp add: example_loader_def new_DataLoader_def)

section \<open>The pairing invariant\<close>

lemma parse_line_lengths:
  "parse_line to_float self line = Inr (li, lm) \<Longrightarrow> length li = length lm"
  by (auto simp: parse_line_def split: sum.splits list.splits option.splits)

lemma load_lines_lengths:
  "load_lines to_float self csv_rows images ms = Inr (images', ms') \<Longrightarrow>
   length images = length ms \<Longrightarrow> length images' = length ms'"
proof (induction csv_rows arbitrary: images ms)
  case Nil
  then show ?case by simp
next
  case (Cons line rest)
  then show ?case
    by (auto split: sum.splits dest: parse_line_lengths)
qed

lemma len_m_np_array: "len_m (np_array ms) = length ms"
  by (cases ms) simp_all

lemma load_data_log_lengths:
  "load_data_log to_float self csv_rows = Inr (images, ms) \<Longrightarrow> length images = len_m ms"
  by (auto simp: load_data_log_def len_m_np_array split: sum.splits dest: load_lines_lengths)

lemma np_delete_length:
  "length xs = length ys \<Longrightarrow> np_delete xs obj = Inr xs' \<Longrightarrow> np_delete ys obj = Inr ys' \<Longrightarrow>
   length xs' = length ys'"
  by (auto simp: np_delete_def length_nths split: if_splits)

lemma normalize_dataset_lengths:
  "normalize_dataset histogram self g images ms = Inr (images', ms', g') \<Longrightarrow>
   length images = len_m ms \<Longrightarrow> length images' = len_m ms'"
  by (cases ms)
    (auto simp: normalize_dataset_def Let_def
      split: sum.splits prod.splits option.splits dest: np_delete_length)

lemmas float64_eval = round_float64_def float_exponent_def exponent_up.simps
  exponent_down.simps pow2_def round_even_def np_mean_def float_mul_def Let_def

lemmas histogram_eval = example_histogram_def equal_width_histogram_def np_linspace_def
  data_range_def in_bin_def upt_rec

lemma example_histogram_value:
  "example_histogram [0, 0, 0, 1] = ([3, 0, 0, 1], [0, 1 / 4, 1 / 2, 3 / 4, 1])"
  by (simp add: histogram_eval)

lemma example_max_wanted:
  "float_mul (np_mean [3, 0, 0, 1]) (5 / 2) = 5 / 2"
  by (simp add: float64_eval)

lemmas normalize_eval = normalize_dataset_def example_loader_def
  new_DataLoader_def astype_uint32_def bin_angles_def np_where_def in_bin_def
  np_random_choice_def draw_def zero_rng_def np_delete_def nths_def upt_rec

lemma normalize_dataset_example:
  "normalize_dataset example_histogram example_loader zero_rng [''a'', ''b'', ''c'', ''d'']
     (Rows2D [(0, 0, 0), (0, 1, 0), (0, 2, 0), (1, 3, 0)]) =
   Inr ([''b'', ''c'', ''d''], Rows2D [(0, 1, 0), (0, 2, 0), (1, 3, 0)], zero_rng)"
proof -
  have f: "normalize_factor example_loader = Some (5 / 2)"
    by (simp add: example_loader_def new_DataLoader_def)
  have h: "example_histogram (map fst [(0, 0, 0), (0, 1, 0), (0, 2, 0), (1 :: real, 3 :: real, 0 :: real)]) =
      ([3, 0, 0, 1], [0, 1 / 4, 1 / 2, 3 / 4, 1])"
    using example_histogram_value by simp
  show ?thesis
    unfolding normalize_dataset_def column0.simps sum.case h prod.case f option.case
      example_max_wanted
    by (simp add: normalize_eval)
qed

lemma load_data_log_example:
  "load_data_log float_decimal example_loader
     [[''IMG/c.jpg'', ''IMG/l.jpg'', ''IMG/r.jpg'', ''0.5'', ''0.2'', ''0.0'']] =
   Inr ([''c.jpg'', ''l.jpg'', ''r.jpg''],
        Rows2D [(5 / 10, 2 / 10, 0), (6 / 10, 2 / 10, 0), (4 / 10, 2 / 10, 0)])"
  by (simp add: load_data_log_def parse_line_def example_loader_def new_DataLoader_def
      last_component_def str_split_def float_decimal_eval clip_row_def np_clip_def)

text \<open>
  C1. Every stage keeps the two sequences equally long: what \<^verbatim>\<open>_load_data_log\<close> returns
  is paired, and \<^verbatim>\<open>_normalize\<close>, \<^verbatim>\<open>_flip_images\<close> and saving followed by reading return a
  paired dataset when they are given one.
\<close>

theorem pairing_invariant:
  "(load_data_log to_float self csv_rows = Inr (images0, ms0) \<longrightarrow>
      length images0 = len_m ms0) \<and>
   (length images = len_m ms \<and>
    normalize_dataset histogram self g images ms = Inr (images1, ms1, g1) \<longrightarrow>
      length images1 = len_m ms1) \<and>
   (length images = len_m ms \<and> flip_images self d images ms = Inr (images2, ms2, d2) \<longrightarrow>
      length images2 = len_m ms2) \<and>
   (length images = len_m ms \<longrightarrow>
      (\<exists>images3 ms3.
         read_pickle self (save_pickle self store images ms) =
           Inr (PyImages images3, PyMeasurements ms3) \<and>
         length images3 = len_m ms3))"
  using load_data_log_lengths normalize_dataset_lengths flip_images_lengths
  by (auto simp: read_pickle_def save_pickle_def)

theorem pairing_invariant_witness:
  "load_data_log float_decimal example_loader
     [[''IMG/c.jpg'', ''IMG/l.jpg'', ''IMG/r.jpg'', ''0.5'', ''0.2'', ''0.0'']] =
     Inr ([''c.jpg'', ''l.jpg'', ''r.jpg''],
          Rows2D [(5 / 10, 2 / 10, 0), (6 / 10, 2 / 10, 0), (4 / 10, 2 / 10, 0)]) \<and>
   length [''c.jpg'', ''l.jpg'', ''r.jpg''] =
     len_m (Rows2D [(5 / 10, 2 / 10, 0), (6 / 10, 2 / 10, 0), (4 / 10, 2 / 10, 0)]) \<and>
   normalize_dataset example_histogram example_loader zero_rng [''a'', ''b'', ''c'', ''d'']
     (Rows2D [(0, 0, 0), (0, 1, 0), (0, 2, 0), (1, 3, 0)]) =
     Inr ([''b'', ''c'', ''d''], Rows2D [(0, 1, 0), (0, 2, 0), (1, 3, 0)], zero_rng) \<and>
   length [''b'', ''c'', ''d''] = len_m (Rows2D [(0, 1, 0), (0, 2, 0), (1, 3, 0)]) \<and>
   flip_images example_loader example_disk [''a.jpg''] (Rows2D [(1 / 10, 2, 3)]) =
     Inr ([''a.jpg'', ''flipped_a.jpg''], Rows2D [(1 / 10, 2, 3), (- 1 / 10, 2, 3)],
          flipped_disk) \<and>
   length [''a.jpg'', ''flipped_a.jpg''] =
     len_m (Rows2D [(1 / 10, 2, 3), (- 1 / 10, 2, 3)]) \<and>
   (\<exists>images3 ms3.
      read_pickle example_loader
        (save_pickle example_loader Map.empty [''a.jpg''] (Rows2D [(1 / 10, 2, 3)])) =
        Inr (PyImages images3, PyMeasurements ms3) \<and>
      length images3 = len_m ms3)"
  using
    pairing_invariant [of float_decimal example_loader
      "[[''IMG/c.jpg'', ''IMG/l.jpg'', ''IMG/r.jpg'', ''0.5'', ''0.2'', ''0.0'']]"
      "[''c.jpg'', ''l.jpg'', ''r.jpg'']"
      "Rows2D [(5 / 10, 2 / 10, 0), (6 / 10, 2 / 10, 0), (4 / 10, 2 / 10, 0)]"
      "[''a.jpg'']" "Rows2D [(1 / 10, 2, 3)]" example_histogram zero_rng "[]" Shape0
      zero_rng example_disk "[''a.jpg'', ''flipped_a.jpg'']"
      "Rows2D [(1 / 10, 2, 3), (- 1 / 10, 2, 3)]" flipped_disk Map.empty]
    pairing_invariant [of float_decimal example_loader
      "[]" "[]" Shape0 "[''a'', ''b'', ''c'', ''d'']"
      "Rows2D [(0, 0, 0), (0, 1, 0), (0, 2, 0), (1, 3, 0)]" example_histogram zero_rng
      "[''b'', ''c'', ''d'']" "Rows2D [(0, 1, 0), (0, 2, 0), (1, 3, 0)]" zero_rng]
  by (simp add: load_data_log_example flip_images_example normalize_dataset_example)

section \<open>Properties of the normaliser\<close>

lemma remove_nth_props:
  assumes "distinct xs" and "j < length xs"
  shows "distinct (take j xs @ drop (Suc j) xs)"
    and "xs ! j \<notin> set (take j xs @ drop (Suc j) xs)"
    and "set (take j xs @ drop (Suc j) xs) \<subseteq> set xs"
    and "length (take j xs @ drop (Suc j) xs) = length xs - 1"
proof -
  from assms(2) have xs: "xs = take j xs @ xs ! j # drop (Suc j) xs"
    by (rule id_take_nth_drop)
  from assms(1) have "distinct (take j xs @ xs ! j # drop (Suc j) xs)"
    using xs by simp
  then show "distinct (take j xs @ drop (Suc j) xs)"
    and "xs ! j \<notin> set (take j xs @ drop (Suc j) xs)" by auto
  show "set (take j xs @ drop (Suc j) xs) \<subseteq> set xs"
    by (auto dest: in_set_takeD in_set_dropD)
  from assms(2) show "length (take j xs @ drop (Suc j) xs) = length xs - 1" by auto
qed

lemma pick_props:
  "distinct xs \<Longrightarrow> k \<le> length xs \<Longrightarrow>
   set (fst (pick g xs k)) \<subseteq> set xs \<and> distinct (fst (pick g xs k)) \<and>
   length (fst (pick g xs k)) = k"
proof (induction g xs k rule: pick.induct)
  case (1 g xs)
  then show ?case by simp
next
  case (2 g k)
  then show ?case by simp
next
  case (3 g x xs k)
  obtain r g' where d: "draw g = (r, g')" by (cases "draw g")
  define j where "j = r mod length (x # xs)"
  define rest where "rest = take j (x # xs) @ drop (Suc j) (x # xs)"
  have j: "j < length (x # xs)" by (simp add: j_def)
  note rp = remove_nth_props [OF "3.prems"(1) j, folded rest_def]
  have "k \<le> length rest" using rp(4) "3.prems"(2) by simp
  from "3.IH" [OF d [symmetric] j_def rp(1) [unfolded rest_def] this [unfolded rest_def]]
  have ih: "set (fst (pick g' rest k)) \<subseteq> set rest" "distinct (fst (pick g' rest k))"
    "length (fst (pick g' rest k)) = k"
    by (simp_all add: rest_def)
  have eq: "fst (pick g (x # xs) (Suc k)) = (x # xs) ! j # fst (pick g' rest k)"
    by (simp add: d j_def rest_def Let_def split: prod.splits)
  have "(x # xs) ! j \<in> set (x # xs)" using j by (meson nth_mem)
  with ih rp show ?case unfolding eq by auto
qed

text \<open>Every sample without replacement is the outcome of some stream of draws.\<close>

lemma pick_reaches:
  "distinct ys \<Longrightarrow> set ys \<subseteq> set xs \<Longrightarrow> \<exists>g. fst (pick g xs (length ys)) = ys"
proof (induction ys arbitrary: xs)
  case Nil
  then show ?case by simp
next
  case (Cons y ys)
  from Cons.prems(2) obtain j where j: "j < length xs" "xs ! j = y"
    by (auto simp: in_set_conv_nth)
  then obtain x xs' where xs: "xs = x # xs'" by (cases xs) auto
  define rest where "rest = take j xs @ drop (Suc j) xs"
  have "set xs = insert y (set rest)"
    using id_take_nth_drop [OF j(1)] j(2) unfolding rest_def
    by (metis Un_insert_right list.simps(15) set_append)
  with Cons.prems have "set ys \<subseteq> set rest" by auto
  with Cons.IH [of rest] Cons.prems(1) obtain g' where g': "fst (pick g' rest (length ys)) = ys"
    by auto
  define g :: rng where "g = (\<lambda>i. case i of 0 \<Rightarrow> j | Suc i' \<Rightarrow> g' i')"
  have d: "draw g = (j, g')" by (simp add: draw_def g_def)
  have "fst (pick g (x # xs') (Suc (length ys))) = y # ys"
    using j g' by (auto simp: d xs rest_def Let_def split: prod.splits)
  then show ?case unfolding xs by (intro exI [of _ g]) simp
qed














text \<open>
  Rounding can lower \<^verbatim>\<open>max_wanted\<close>: for the eleven counts 15, 14, 0, ..., 0, 1 and the
  factor 5.5 the exact product is 15, while the float64 mean is just below 30/11 and the
  float64 product just below 15, so that \<^verbatim>\<open>max_wanted\<close> is 14.
\<close>

lemma max_wanted_rounds_down:
  "astype_uint32 (float_mul (np_mean [15, 14, 0, 0, 0, 0, 0, 0, 0, 0, 1]) (11 / 2)) = 14 \<and>
   \<lfloor>real (sum_list [15, 14, 0, 0, 0, 0, 0, 0, 0, 0, 1 :: nat]) / 11 * (11 / 2)\<rfloor> = 15"
  by (simp add: float64_eval astype_uint32_def)

lemma replicate_unfold:
  "replicate 15 x = [x, x, x, x, x, x, x, x, x, x, x, x, x, x, x]"
  "replicate 14 x = [x, x, x, x, x, x, x, x, x, x, x, x, x, x]"
  "replicate 30 x = [x, x, x, x, x, x, x, x, x, x, x, x, x, x, x, x, x, x, x, x, x, x, x, x, x,
     x, x, x, x, x]"
  "replicate 29 x = [x, x, x, x, x, x, x, x, x, x, x, x, x, x, x, x, x, x, x, x, x, x, x, x, x,
     x, x, x, x]"
  by (simp_all add: numeral_eq_Suc)

lemma thirty_rows_histogram:
  "equal_width_histogram 11 (map fst thirty_rows) =
    ([15, 14, 0, 0, 0, 0, 0, 0, 0, 0, 1],
     [0, 1 / 11, 2 / 11, 3 / 11, 4 / 11, 5 / 11, 6 / 11, 7 / 11, 8 / 11, 9 / 11, 10 / 11, 1])"
  by (simp add: thirty_rows_def replicate_unfold equal_width_histogram_def np_linspace_def
      data_range_def in_bin_def upt_rec)

text \<open>
  On those thirty samples with factor 5.5 the first bin, with fifteen samples, is cut to
  fourteen: twenty-nine samples remain.
\<close>

lemma normalize_dataset_rounding_run:
  "normalize_dataset (equal_width_histogram 11)
     (example_loader\<lparr>normalize_factor := Some (11 / 2)\<rparr>)
     zero_rng (replicate 30 ''a.jpg'') (Rows2D thirty_rows) =
   Inr (replicate 29 ''a.jpg'',
        Rows2D (replicate 14 (0, 0, 0) @ replicate 14 (15 / 100, 0, 0) @ [(1, 0, 0)]),
        zero_rng)"
proof -
  have f: "normalize_factor (example_loader\<lparr>normalize_factor := Some (11 / 2)\<rparr>) =
      Some (11 / 2)"
    by simp
  note mw = max_wanted_rounds_down [THEN conjunct1]
  show ?thesis
    unfolding normalize_dataset_def column0.simps sum.case thirty_rows_histogram prod.case f
      option.case Let_def mw
    by (simp add: thirty_rows_def replicate_unfold bin_angles_def np_where_def in_bin_def
        upt_rec np_random_choice_def draw_def zero_rng_def np_delete_def nths_def)
qed

section \<open>Properties of the generator\<close>

lemma shuffle_lengths:
  "shuffle g images ms = Inr (images', ms', g') \<Longrightarrow> length images' = len_m ms'"
  by (cases ms) (auto simp: shuffle_def split: prod.splits if_splits)

lemma epoch_loop_Some:
  assumes a: "epoch_loop ld g images ms n b = Some r"
  shows "b = 0 \<or> (0 < b \<and> 0 < n) \<or> length images \<noteq> len_m ms"
proof (rule epoch_loop.raw_induct
    [where P = "\<lambda>ld g images ms n b r. b = 0 \<or> (0 < b \<and> 0 < n) \<or> length images \<noteq> len_m ms",
      OF _ a])
  fix rec :: "(string \<Rightarrow> 'a) \<Rightarrow> rng \<Rightarrow> string list \<Rightarrow> marray \<Rightarrow> nat \<Rightarrow> int
     \<Rightarrow> (error + ('a list \<times> real list) \<times> rng \<times> gen_state) option"
    and ld g images ms n b r
  assume IH: "\<And>ld g images ms n b r. rec ld g images ms n b = Some r \<Longrightarrow>
      b = 0 \<or> (0 < b \<and> 0 < n) \<or> length images \<noteq> len_m ms"
    and eq: "(case shuffle g images ms of
        Inl e \<Rightarrow> Some (Inl e)
      | Inr (images', measurements', g') \<Rightarrow>
          if b = 0 then Some (Inl ValueError)
          else if 0 < b \<and> 0 < n then Some (yield_batch ld g' images' measurements' n b 0)
          else rec ld g' images' measurements' n b) = Some r"
  show "b = 0 \<or> (0 < b \<and> 0 < n) \<or> length images \<noteq> len_m ms"
  proof (cases "shuffle g images ms")
    case (Inl e)
    then show ?thesis by (auto simp: shuffle_def split: if_splits prod.splits)
  next
    case (Inr t)
    obtain images' ms' g' where t: "t = (images', ms', g')" by (cases t)
    from Inr t have "length images' = len_m ms'" by (simp add: shuffle_lengths)
    with IH [of ld g' images' ms' n b r] eq Inr t show ?thesis
      by (auto split: if_splits)
  qed
qed

lemma epoch_loop_None:
  "length images = len_m ms \<Longrightarrow> (n = 0 \<and> b \<noteq> 0) \<or> b < 0 \<Longrightarrow> epoch_loop ld g images ms n b = None"
  using epoch_loop_Some [of ld g images ms n b] by (cases "epoch_loop ld g images ms n b") auto

lemma shuffle_perm:
  assumes "length images = length rows"
  shows "\<exists>p g'. shuffle g images (Rows2D rows) =
            Inr (map ((!) images) p, Rows2D (map ((!) rows) p), g') \<and>
          mset p = mset [0..<length images]"
proof -
  let ?n = "length images"
  define p where "p = fst (pick g [0..<?n] ?n)"
  define g' where "g' = snd (pick g [0..<?n] ?n)"
  from pick_props [of "[0..<?n]" ?n g]
  have p: "set p \<subseteq> {0..<?n}" "distinct p" "length p = ?n" by (simp_all add: p_def)
  then have "card (set p) = card {0..<?n}" by (simp add: distinct_card)
  with p(1) have "set p = {0..<?n}" by (intro card_subset_eq) simp_all
  with p(2) have "mset p = mset [0..<?n]"
    by (intro iffD1 [OF set_eq_iff_mset_eq_distinct]) simp_all
  moreover have "shuffle g images (Rows2D rows) =
            Inr (map ((!) images) p, Rows2D (map ((!) rows) p), g')"
    using assms by (simp add: shuffle_def p_def g'_def split: prod.splits)
  ultimately show ?thesis by blast
qed

lemma yield_batch_rows:
  "yield_batch ld g imgs (Rows2D rws) n (int B) off =
     Inr (chunk ld imgs rws B off, g, Suspended imgs (Rows2D rws) n (int B) off)"
  by (simp add: yield_batch_def chunk_def Let_def)

lemma gen_take_in_epoch:
  "0 < B \<Longrightarrow> off + k * B < n \<Longrightarrow>
   gen_take ld k (g, Suspended imgs (Rows2D rws) n (int B) off) =
     Some (Inr (map (\<lambda>i. chunk ld imgs rws B (off + Suc i * B)) [0..<k],
                (g, Suspended imgs (Rows2D rws) n (int B) (off + k * B))))"
proof (induction k arbitrary: off)
  case 0
  then show ?case by simp
next
  case (Suc k)
  from Suc.prems have lt: "int off + int B < int n" by simp
  have nat: "nat (int off + int B) = off + B" by simp
  from Suc.prems have "(off + B) + k * B < n" by simp
  from Suc.IH [OF Suc.prems(1) this]
  have ih: "gen_take ld k (g, Suspended imgs (Rows2D rws) n (int B) (off + B)) =
     Some (Inr (map (\<lambda>i. chunk ld imgs rws B (off + B + Suc i * B)) [0..<k],
                (g, Suspended imgs (Rows2D rws) n (int B) (off + B + k * B))))" .
  have m: "map (\<lambda>i. chunk ld imgs rws B (off + Suc i * B)) [0..<Suc k] =
      chunk ld imgs rws B (off + B) # map (\<lambda>i. chunk ld imgs rws B (off + B + Suc i * B)) [0..<k]"
    by (simp only: upt_conv_Cons [OF zero_less_Suc] map_Suc_upt [symmetric] list.map map_map)
       (simp add: comp_def add.assoc)
  have e: "off + B + k * B = off + Suc k * B" by simp
  have "gen_take ld (Suc k) (g, Suspended imgs (Rows2D rws) n (int B) off) =
      Some (Inr (chunk ld imgs rws B (off + B) #
                 map (\<lambda>i. chunk ld imgs rws B (off + B + Suc i * B)) [0..<k],
                (g, Suspended imgs (Rows2D rws) n (int B) (off + B + k * B))))"
    by (simp only: gen_take.simps gen_next.simps lt if_True nat yield_batch_rows ih
        option.simps sum.simps prod.simps)
  then show ?case unfolding m e .
qed

lemma gen_take_add:
  "gen_take ld k1 s = Some (Inr (bs1, s1)) \<Longrightarrow> gen_take ld k2 s1 = Some (Inr (bs2, s2)) \<Longrightarrow>
   gen_take ld (k1 + k2) s = Some (Inr (bs1 @ bs2, s2))"
proof (induction k1 arbitrary: s bs1)
  case 0
  then show ?case by simp
next
  case (Suc k1)
  from Suc.prems(1) obtain batch s' rest where
    n: "gen_next ld s = Some (Inr (batch, s'))"
    and t: "gen_take ld k1 s' = Some (Inr (rest, s1))" and bs1: "bs1 = batch # rest"
    by (auto split: option.splits sum.splits prod.splits)
  from Suc.IH [OF t Suc.prems(2)] n bs1 show ?case by simp
qed

lemma gen_take_prefix:
  "gen_take ld (k + j) s = Some (Inr (bs, s2)) \<Longrightarrow>
   \<exists>s1. gen_take ld k s = Some (Inr (take k bs, s1))"
proof (induction k arbitrary: s bs)
  case 0
  then show ?case by simp
next
  case (Suc k)
  from Suc.prems obtain batch s' rest where
    n: "gen_next ld s = Some (Inr (batch, s'))"
    and t: "gen_take ld (k + j) s' = Some (Inr (rest, s2))" and bs: "bs = batch # rest"
    by (auto split: option.splits sum.splits prod.splits)
  from Suc.IH [OF t] n bs show ?case by auto
qed

lemma gen_take_length:
  "gen_take ld k s = Some (Inr (bs, s')) \<Longrightarrow> length bs = k"
proof (induction k arbitrary: s bs)
  case 0
  then show ?case by simp
next
  case (Suc k)
  then show ?case by (auto split: option.splits sum.splits prod.splits)
qed


lemma chunks_per_epoch_bounds:
  assumes "0 < B" and "0 < n"
  shows "(chunks_per_epoch n B - 1) * B < n" and "n \<le> chunks_per_epoch n B * B"
    and "0 < chunks_per_epoch n B"
    and "chunks_per_epoch n B = n div B + (if n mod B = 0 then 0 else 1)"
proof -
  show d: "chunks_per_epoch n B = n div B + (if n mod B = 0 then 0 else 1)"
  proof (cases "n mod B = 0")
    case True
    define q where "q = n div B"
    have q: "n = q * B" using True by (auto simp: q_def)
    have "(B - 1) div B = 0" using assms(1) by simp
    then have "(q * B + (B - 1)) div B = q"
      using assms(1) by (subst div_mult_self3) simp_all
    moreover have "q * B + B - 1 = q * B + (B - 1)" using assms(1) by simp
    moreover have "q * B div B = q" "q * B mod B = 0" using assms(1) by simp_all
    ultimately show ?thesis unfolding chunks_per_epoch_def q by simp
  next
    case False
    define r where "r = n mod B"
    define q where "q = n div B"
    have n: "n = q * B + r" by (simp add: q_def r_def)
    have r: "0 < r" "r < B" using False assms(1) by (simp_all add: r_def)
    have "n + B - 1 = (q + 1) * B + (r - 1)" using r by (simp add: n)
    moreover have "(r - 1) div B = 0" using r by simp
    then have "((q + 1) * B + (r - 1)) div B = q + 1"
      using assms(1) by (subst div_mult_self3) simp_all
    ultimately show ?thesis using False by (simp add: chunks_per_epoch_def q_def)
  qed
  have m: "n = n div B * B + n mod B" by simp
  show "(chunks_per_epoch n B - 1) * B < n"
  proof (cases "n mod B = 0")
    case True
    then have eq: "n div B * B = n" by auto
    have "0 < n div B" by (rule ccontr) (use eq assms(2) in simp)
    then have "(n div B - 1) * B < n div B * B" using assms(1) by simp
    moreover have "chunks_per_epoch n B - 1 = n div B - 1" using True by (simp add: d)
    ultimately show ?thesis using eq by simp
  next
    case False
    then have "0 < n mod B" by simp
    moreover have "n div B * B + n mod B = n" by simp
    ultimately have "n div B * B < n" by linarith
    moreover have "chunks_per_epoch n B - 1 = n div B" using False by (simp add: d)
    ultimately show ?thesis by simp
  qed
  show "n \<le> chunks_per_epoch n B * B"
  proof (cases "n mod B = 0")
    case True
    then have "n div B * B = n" by auto
    moreover have "chunks_per_epoch n B = n div B" using True by (simp add: d)
    ultimately show ?thesis by simp
  next
    case False
    have "n mod B < B" using assms(1) by simp
    moreover have "n div B * B + n mod B = n" by simp
    ultimately have "n < n div B * B + B" by linarith
    moreover have "chunks_per_epoch n B * B = n div B * B + B" using False by (simp add: d)
    ultimately show ?thesis by simp
  qed
  show "0 < chunks_per_epoch n B"
  proof (cases "n mod B = 0")
    case True
    then have eq: "n div B * B = n" by auto
    have "0 < n div B" by (rule ccontr) (use eq assms(2) in simp)
    with True show ?thesis by (simp add: d)
  next
    case False
    then show ?thesis by (simp add: d)
  qed
qed

lemma epoch_step:
  assumes len: "length imgs = n" "length rws = n" and n: "0 < n" and B: "0 < B"
    and st: "at_epoch_end n B imgs rws st"
  shows "\<exists>p g' st'. mset p = mset [0..<n] \<and>
     gen_take ld (chunks_per_epoch n B) (g, st) =
       Some (Inr (map (\<lambda>i. chunk ld (map ((!) imgs) p) (map ((!) rws) p) B (i * B))
                    [0..<chunks_per_epoch n B], (g', st'))) \<and>
     at_epoch_end n B (map ((!) imgs) p) (map ((!) rws) p) st'"
proof -
  let ?m = "chunks_per_epoch n B"
  from shuffle_perm [of imgs rws g] len obtain p g' where
    sh: "shuffle g imgs (Rows2D rws) = Inr (map ((!) imgs) p, Rows2D (map ((!) rws) p), g')"
    and p: "mset p = mset [0..<n]" by auto
  let ?imgs = "map ((!) imgs) p" and ?rws = "map ((!) rws) p"
  have loop: "epoch_loop ld g imgs (Rows2D rws) n (int B) =
      Some (Inr (chunk ld ?imgs ?rws B 0, g', Suspended ?imgs (Rows2D ?rws) n (int B) 0))"
    using n B by (subst epoch_loop.simps) (simp add: sh yield_batch_rows)
  have first: "gen_next ld (g, st) =
      Some (Inr (chunk ld ?imgs ?rws B 0, g', Suspended ?imgs (Rows2D ?rws) n (int B) 0))"
    using st by (auto simp: at_epoch_end_def loop len)
  from chunks_per_epoch_bounds [OF B n]
  have b: "(?m - 1) * B < n" "n \<le> ?m * B" "0 < ?m" by simp_all
  from b(1) have "0 + (?m - 1) * B < n" by simp
  from gen_take_in_epoch [OF B this, of ld g' ?imgs ?rws]
  have rest: "gen_take ld (?m - 1) (g', Suspended ?imgs (Rows2D ?rws) n (int B) 0) =
     Some (Inr (map (\<lambda>i. chunk ld ?imgs ?rws B (Suc i * B)) [0..<?m - 1],
                (g', Suspended ?imgs (Rows2D ?rws) n (int B) ((?m - 1) * B))))"
    by simp
  have one: "gen_take ld 1 (g, st) =
      Some (Inr ([chunk ld ?imgs ?rws B 0], (g', Suspended ?imgs (Rows2D ?rws) n (int B) 0)))"
    by (simp add: first)
  from gen_take_add [OF one rest] b(3)
  have all: "gen_take ld ?m (g, st) =
     Some (Inr (chunk ld ?imgs ?rws B 0 # map (\<lambda>i. chunk ld ?imgs ?rws B (Suc i * B)) [0..<?m - 1],
                (g', Suspended ?imgs (Rows2D ?rws) n (int B) ((?m - 1) * B))))"
    by simp
  have "[0..<?m] = 0 # map Suc [0..<?m - 1]"
    using b(3) by (metis Suc_pred' map_Suc_upt upt_conv_Cons)
  then have lst: "map (\<lambda>i. chunk ld ?imgs ?rws B (i * B)) [0..<?m] =
      chunk ld ?imgs ?rws B 0 # map (\<lambda>i. chunk ld ?imgs ?rws B (Suc i * B)) [0..<?m - 1]"
    by (simp add: comp_def)
  have "n \<le> (?m - 1) * B + B" using b(2,3) by (metis Suc_pred' mult_Suc add.commute)
  then have "at_epoch_end n B ?imgs ?rws (Suspended ?imgs (Rows2D ?rws) n (int B) ((?m - 1) * B))"
    by (simp add: at_epoch_end_def)
  with p all lst show ?thesis by metis
qed


lemma concat_chunks:
  "concat (map (\<lambda>i. take B (drop (i * B) xs)) [0..<m]) = take (m * B) xs"
proof (induction m)
  case 0
  then show ?case by simp
next
  case (Suc m)
  have "take (Suc m * B) xs = take (m * B) xs @ take B (drop (m * B) xs)"
    by (simp add: take_add [symmetric] add.commute)
  with Suc show ?case by simp
qed

lemma chunk_lengths:
  assumes "0 < B" and "0 < n" and "length xs = n"
  shows "map (\<lambda>i. length (take B (drop (i * B) xs))) [0..<chunks_per_epoch n B] = chunk_sizes n B"
proof (rule nth_equalityI)
  note d = chunks_per_epoch_bounds(4) [OF assms(1,2)]
  show len: "length (map (\<lambda>i. length (take B (drop (i * B) xs))) [0..<chunks_per_epoch n B]) =
      length (chunk_sizes n B)"
    by (simp add: d chunk_sizes_def)
  fix j
  assume "j < length (map (\<lambda>i. length (take B (drop (i * B) xs))) [0..<chunks_per_epoch n B])"
  then have j: "j < chunks_per_epoch n B" by simp
  have dm: "n div B * B + n mod B = n" by simp
  show "map (\<lambda>i. length (take B (drop (i * B) xs))) [0..<chunks_per_epoch n B] ! j =
      chunk_sizes n B ! j"
  proof (cases "j < n div B")
    case True
    then have "Suc j \<le> n div B" by simp
    then have "Suc j * B \<le> n div B * B" by (rule mult_le_mono1)
    then have "B + j * B \<le> n div B * B" by simp
    with dm have "j * B + B \<le> n" by linarith
    then have "min B (n - j * B) = B" by simp
    with True j show ?thesis
      by (simp add: chunk_sizes_def nth_append assms(3) min.commute)
  next
    case False
    with j have jq: "j = n div B" and nz: "n mod B \<noteq> 0"
      by (auto simp: d split: if_splits)
    have "n - n div B * B = n mod B" using dm by linarith
    moreover have "n mod B < B" using assms(1) by simp
    ultimately have "min (n - j * B) B = n mod B" by (simp add: jq)
    with j nz show ?thesis
      by (simp add: chunk_sizes_def nth_append assms(3) jq)
  qed
qed

lemma perm_compose:
  assumes q: "mset q = mset [0..<n]" and p: "mset p = mset [0..<n]"
  shows "mset (map ((!) q) p) = mset [0..<n]"
    and "map ((!) (map f q)) p = map f (map ((!) q) p)"
proof -
  from q have lq: "length q = n" by (metis length_upt mset_eq_length minus_nat.diff_0)
  have "mset (map ((!) q) p) = image_mset ((!) q) (mset p)" by simp
  also have "\<dots> = mset (map ((!) q) [0..<length q])" by (simp add: p lq)
  also have "\<dots> = mset q" by (simp only: map_nth)
  finally show "mset (map ((!) q) p) = mset [0..<n]" by (simp add: q)
  from p have "set p = {0..<n}" by (metis mset_eq_setD set_upt)
  then have "\<forall>i\<in>set p. i < length q" by (simp add: lq)
  then show "map ((!) (map f q)) p = map f (map ((!) q) p)" by simp
qed

lemma epoch_batches:
  assumes len: "length images = n" "length rows = n" and n: "0 < n" and B: "0 < B"
    and q: "mset q = mset [0..<n]"
    and st: "at_epoch_end n B (map ((!) images) q) (map ((!) rows) q) st"
  shows "\<exists>perm ep g' st'.
     gen_take ld (chunks_per_epoch n B) (g, st) = Some (Inr (ep, (g', st'))) \<and>
     mset perm = mset [0..<n] \<and>
     at_epoch_end n B (map ((!) images) perm) (map ((!) rows) perm) st' \<and>
     concat (map fst ep) = map (\<lambda>i. ld (images ! i)) perm \<and>
     concat (map snd ep) = map (\<lambda>i. fst (rows ! i)) perm \<and>
     map (length \<circ> fst) ep = chunk_sizes n B \<and>
     map (length \<circ> snd) ep = chunk_sizes n B"
proof -
  let ?m = "chunks_per_epoch n B"
  let ?imgs = "map ((!) images) q" and ?rws = "map ((!) rows) q"
  from q have lq: "length q = n" by (metis length_upt mset_eq_length minus_nat.diff_0)
  then have l: "length ?imgs = n" "length ?rws = n" by simp_all
  from epoch_step [OF l n B st, of ld g] obtain p g' st' where
    p: "mset p = mset [0..<n]"
    and run: "gen_take ld ?m (g, st) =
       Some (Inr (map (\<lambda>i. chunk ld (map ((!) ?imgs) p) (map ((!) ?rws) p) B (i * B)) [0..<?m],
                  (g', st')))"
    and st': "at_epoch_end n B (map ((!) ?imgs) p) (map ((!) ?rws) p) st'"
    by blast
  define perm where "perm = map ((!) q) p"
  from p have lp: "length p = n" by (metis length_upt mset_eq_length minus_nat.diff_0)
  note pc = perm_compose [OF q p]
  have i': "map ((!) ?imgs) p = map ((!) images) perm"
    and r': "map ((!) ?rws) p = map ((!) rows) perm"
    by (simp_all only: pc(2) perm_def)
  have lperm: "length perm = n" by (simp add: perm_def lp)
  define ep where "ep = map (\<lambda>i. chunk ld (map ((!) images) perm) (map ((!) rows) perm) B (i * B)) [0..<?m]"
  note b = chunks_per_epoch_bounds [OF B n]
  have full: "\<And>xs :: 'b list. length xs = n \<Longrightarrow> take (?m * B) xs = xs"
    using b(2) by simp
  have "concat (map fst ep) =
      map ld (concat (map (\<lambda>i. take B (drop (i * B) (map ((!) images) perm))) [0..<?m]))"
    by (simp add: ep_def chunk_def comp_def map_concat)
  also have "\<dots> = map ld (map ((!) images) perm)"
    unfolding concat_chunks by (simp add: full lperm)
  finally have c1: "concat (map fst ep) = map (\<lambda>i. ld (images ! i)) perm" by (simp add: comp_def)
  have "concat (map snd ep) =
      map fst (concat (map (\<lambda>i. take B (drop (i * B) (map ((!) rows) perm))) [0..<?m]))"
    by (simp add: ep_def chunk_def comp_def map_concat)
  also have "\<dots> = map fst (map ((!) rows) perm)"
    unfolding concat_chunks by (simp add: full lperm)
  finally have c2: "concat (map snd ep) = map (\<lambda>i. fst (rows ! i)) perm" by (simp add: comp_def)
  have s1: "map (length \<circ> fst) ep = chunk_sizes n B"
    using chunk_lengths [OF B n, of "map ((!) images) perm"]
    by (simp add: ep_def chunk_def comp_def lperm)
  have s2: "map (length \<circ> snd) ep = chunk_sizes n B"
    using chunk_lengths [OF B n, of "map ((!) rows) perm"]
    by (simp add: ep_def chunk_def comp_def lperm)
  from run have "gen_take ld ?m (g, st) = Some (Inr (ep, (g', st')))"
    by (simp only: i' r' ep_def)
  moreover from st' have "at_epoch_end n B (map ((!) images) perm) (map ((!) rows) perm) st'"
    by (simp only: i' r')
  ultimately show ?thesis using pc(1) c1 c2 s1 s2 unfolding perm_def [symmetric] by blast
qed

lemma epochs_invariant:
  assumes len: "length images = n" "length rows = n" and n: "0 < n" and B: "0 < B"
  shows "\<exists>bs g' st q.
     gen_take ld (e * chunks_per_epoch n B) (g, Created images (Rows2D rows) (int B)) =
       Some (Inr (bs, (g', st))) \<and>
     mset q = mset [0..<n] \<and>
     at_epoch_end n B (map ((!) images) q) (map ((!) rows) q) st"
proof (induction e)
  case 0
  have "map ((!) images) [0..<n] = images" "map ((!) rows) [0..<n] = rows"
    using len by (simp_all add: map_nth [of images, unfolded len(1)] map_nth [of rows, unfolded len(2)])
  then have "at_epoch_end n B (map ((!) images) [0..<n]) (map ((!) rows) [0..<n])
      (Created images (Rows2D rows) (int B))"
    by (simp add: at_epoch_end_def)
  then show ?case by (intro exI [of _ "[]"] exI [of _ g] exI [of _ "Created images (Rows2D rows) (int B)"]
        exI [of _ "[0..<n]"]) simp
next
  case (Suc e)
  then obtain bs g1 st q where
    run: "gen_take ld (e * chunks_per_epoch n B) (g, Created images (Rows2D rows) (int B)) =
       Some (Inr (bs, (g1, st)))"
    and q: "mset q = mset [0..<n]"
    and st: "at_epoch_end n B (map ((!) images) q) (map ((!) rows) q) st" by blast
  from epoch_batches [OF len n B q st, of ld g1] obtain perm ep g' st' where
    ep: "gen_take ld (chunks_per_epoch n B) (g1, st) = Some (Inr (ep, (g', st')))"
    and perm: "mset perm = mset [0..<n]"
    and st': "at_epoch_end n B (map ((!) images) perm) (map ((!) rows) perm) st'" by blast
  from gen_take_add [OF run ep]
  have "gen_take ld (Suc e * chunks_per_epoch n B) (g, Created images (Rows2D rows) (int B)) =
       Some (Inr (bs @ ep, (g', st')))" by (simp add: add.commute)
  with perm st' show ?case by blast
qed

text \<open>
  C9, as the code has it: for at least one sample and a positive batch size. Every
  \<^verbatim>\<open>next()\<close> yields a batch, however many are asked for. The batches of epoch \<open>e\<close>, put
  end to end, are the images (loaded) and the steering angles of the dataset under one
  permutation of its positions, the same for both; their sizes are the batch size,
  repeated, and then the remainder \<open>n mod b\<close> when it is not zero.
\<close>

theorem generator_epochs:
  assumes len: "length images = length rows" and ne: "images \<noteq> []"
    and b: "0 < batch_size"
  shows "(\<forall>k. \<exists>bs s. gen_take ld k (g, Created images (Rows2D rows) batch_size) =
              Some (Inr (bs, s)) \<and> length bs = k) \<and>
         (\<exists>bs s perm.
            gen_take ld (Suc e * chunks_per_epoch (length images) (nat batch_size))
              (g, Created images (Rows2D rows) batch_size) = Some (Inr (bs, s)) \<and>
            mset perm = mset [0..<length images] \<and>
            concat (map fst (drop (e * chunks_per_epoch (length images) (nat batch_size)) bs)) =
              map (\<lambda>i. ld (images ! i)) perm \<and>
            concat (map snd (drop (e * chunks_per_epoch (length images) (nat batch_size)) bs)) =
              map (\<lambda>i. fst (rows ! i)) perm \<and>
            map (length \<circ> fst)
                (drop (e * chunks_per_epoch (length images) (nat batch_size)) bs) =
              chunk_sizes (length images) (nat batch_size) \<and>
            map (length \<circ> snd)
                (drop (e * chunks_per_epoch (length images) (nat batch_size)) bs) =
              chunk_sizes (length images) (nat batch_size))"
proof -
  define n where "n = length images"
  define B where "B = nat batch_size"
  let ?m = "chunks_per_epoch n B"
  let ?start = "(g, Created images (Rows2D rows) (int B))"
  have bs: "batch_size = int B" using b by (simp add: B_def)
  have l: "length images = n" "length rows = n" using len by (simp_all add: n_def)
  have n: "0 < n" using ne by (simp add: n_def)
  have B: "0 < B" using b by (simp add: B_def)
  have m: "0 < ?m" by (rule chunks_per_epoch_bounds(3) [OF B n])
  have always: "\<exists>bs s. gen_take ld k ?start = Some (Inr (bs, s)) \<and> length bs = k" for k
  proof -
    from epochs_invariant [OF l n B, of ld k g] obtain bs s where
      run: "gen_take ld (k * ?m) ?start = Some (Inr (bs, s))" by auto
    from m have "k * ?m = k + (k * ?m - k)" by (cases ?m) simp_all
    with run have "gen_take ld (k + (k * ?m - k)) ?start = Some (Inr (bs, s))" by simp
    from gen_take_prefix [OF this] obtain s1 where
      "gen_take ld k ?start = Some (Inr (take k bs, s1))" by blast
    with gen_take_length [OF this] show ?thesis by blast
  qed
  from epochs_invariant [OF l n B, of ld e g] obtain bs0 g0 st0 q where
    run0: "gen_take ld (e * ?m) ?start = Some (Inr (bs0, (g0, st0)))"
    and q: "mset q = mset [0..<n]"
    and st0: "at_epoch_end n B (map ((!) images) q) (map ((!) rows) q) st0" by blast
  from epoch_batches [OF l n B q st0, of ld g0] obtain perm ep g1 st1 where
    ep: "gen_take ld ?m (g0, st0) = Some (Inr (ep, (g1, st1)))"
    and perm: "mset perm = mset [0..<n]"
    and c: "concat (map fst ep) = map (\<lambda>i. ld (images ! i)) perm"
      "concat (map snd ep) = map (\<lambda>i. fst (rows ! i)) perm"
      "map (length \<circ> fst) ep = chunk_sizes n B" "map (length \<circ> snd) ep = chunk_sizes n B"
    by blast
  from gen_take_add [OF run0 ep]
  have run1: "gen_take ld (Suc e * ?m) ?start = Some (Inr (bs0 @ ep, (g1, st1)))"
    by (simp add: add.commute)
  have "drop (e * ?m) (bs0 @ ep) = ep" using gen_take_length [OF run0] by simp
  with run1 perm c have "\<exists>bs s perm.
            gen_take ld (Suc e * ?m) ?start = Some (Inr (bs, s)) \<and>
            mset perm = mset [0..<n] \<and>
            concat (map fst (drop (e * ?m) bs)) = map (\<lambda>i. ld (images ! i)) perm \<and>
            concat (map snd (drop (e * ?m) bs)) = map (\<lambda>i. fst (rows ! i)) perm \<and>
            map (length \<circ> fst) (drop (e * ?m) bs) = chunk_sizes n B \<and>
            map (length \<circ> snd) (drop (e * ?m) bs) = chunk_sizes n B"
    by (intro exI [of _ "bs0 @ ep"] exI [of _ "(g1, st1)"] exI [of _ perm]) simp
  with always show ?thesis unfolding bs n_def [symmetric] by simp
qed

text \<open>Ten samples in batches of four: the first three batches have sizes 4, 4 and 2.\<close>

theorem generator_epochs_witness:
  "\<exists>bs s. gen_take example_load 3 (zero_rng, Created ten_images (Rows2D ten_rows) 4) =
       Some (Inr (bs, s)) \<and>
     map (length \<circ> fst) bs = [4, 4, 2] \<and> map (length \<circ> snd) bs = [4, 4, 2] \<and>
     length (concat (map fst bs)) = 10"
proof -
  have h: "length ten_images = length ten_rows" "ten_images \<noteq> []" "0 < (4 :: int)"
    by (simp_all add: ten_images_def ten_rows_def)
  have n: "length ten_images = 10" by (simp add: ten_images_def)
  have m: "chunks_per_epoch 10 4 = 3" by (simp add: chunks_per_epoch_def)
  have "(10 :: nat) div 4 = 2" "(10 :: nat) mod 4 = 2" by simp_all
  moreover have "replicate 2 (4 :: nat) = [4, 4]" by (simp add: numeral_2_eq_2)
  ultimately have cs: "chunk_sizes 10 4 = [4, 4, 2]" by (simp add: chunk_sizes_def)
  have e: "Suc 0 * chunks_per_epoch (length ten_images) (nat 4) = 3"
    "0 * chunks_per_epoch (length ten_images) (nat 4) = 0"
    "chunk_sizes (length ten_images) (nat 4) = [4, 4, 2]"
    by (simp_all add: n m cs)
  have "\<exists>bs s perm.
      gen_take example_load 3 (zero_rng, Created ten_images (Rows2D ten_rows) 4) =
        Some (Inr (bs, s)) \<and>
      mset perm = mset [0..<length ten_images] \<and>
      concat (map fst bs) = map (\<lambda>i. example_load (ten_images ! i)) perm \<and>
      concat (map snd bs) = map (\<lambda>i. fst (ten_rows ! i)) perm \<and>
      map (length \<circ> fst) bs = [4, 4, 2] \<and> map (length \<circ> snd) bs = [4, 4, 2]"
    using generator_epochs [OF h, of example_load zero_rng 0, THEN conjunct2]
    unfolding e drop_0 .
  then obtain bs s perm where
    r: "gen_take example_load 3 (zero_rng, Created ten_images (Rows2D ten_rows) 4) =
       Some (Inr (bs, s))"
    and p: "mset perm = mset [0..<length ten_images]"
    and c: "concat (map fst bs) = map (\<lambda>i. example_load (ten_images ! i)) perm"
    and s1: "map (length \<circ> fst) bs = [4, 4, 2]" and s2: "map (length \<circ> snd) bs = [4, 4, 2]"
    by (elim exE conjE)
  from p have "length perm = 10"
    unfolding n by (metis length_upt mset_eq_length minus_nat.diff_0)
  with c have l: "length (concat (map fst bs)) = 10" by simp
  show ?thesis by (intro exI [of _ bs] exI [of _ s] conjI r s1 s2 l)
qed

text \<open>
  C9 as stated fails outside that range: on the empty dataset the first \<^verbatim>\<open>next()\<close> never
  yields, and with batch size 0 it raises ValueError.
\<close>

theorem generator_counterexample:
  "gen_next example_load (zero_rng, Created [] Shape0 4) = None \<and>
   gen_next example_load (zero_rng, Created [''a.jpg''] (Rows2D [(0, 0, 0)]) 0) =
     Some (Inl ValueError)"
proof -
  have "gen_next example_load (zero_rng, Created [] Shape0 4) = None"
    by (simp add: epoch_loop_None)
  moreover from shuffle_perm [of "[''a.jpg'']" "[(0, 0, 0)]" zero_rng] obtain r where
    "shuffle zero_rng [''a.jpg''] (Rows2D [(0, 0, 0)]) = Inr r" by auto
  then have "epoch_loop example_load zero_rng [''a.jpg''] (Rows2D [(0, 0, 0)]) 1 0 =
      Some (Inl ValueError)"
    by (subst epoch_loop.simps) (simp split: prod.splits)
  then have "gen_next example_load (zero_rng, Created [''a.jpg''] (Rows2D [(0, 0, 0)]) 0) =
     Some (Inl ValueError)" by simp
  ultimately show ?thesis by simp
qed

end
